theory Spec2Isabelle
  imports Complex_Main "HOL-Library.Multiset"
begin

section \<open>Tables, cells and errors\<close>

text \<open>
  The module \<^verbatim>\<open>flight_analysis.py\<close> works on pandas data frames. A frame is modelled
  as its ordered column labels and its rows; a row holds one cell per column, in the order
  of the labels. A cell is a number, a text or the missing value (\<^verbatim>\<open>NaN\<close>/\<^verbatim>\<open>None\<close>).
  Numbers are exact rationals: rounding of floating point sums and infinities are outside
  the model. Frames with two columns of the same label are outside the model as well
  (\<open>wf_table\<close> below states what a frame satisfies).
\<close>

datatype cell = Num rat | Str string | Null

record table =
  columns :: "string list"
  rows :: "cell list list"

definition wf_table :: "table \<Rightarrow> bool" where
  "wf_table t = (distinct (columns t) \<and> list_all (\<lambda>r. length r = length (columns t)) (rows t))"

text \<open>
  The exceptions the module can raise. \<open>KeyError\<close> carries the labels pandas names in its
  message, \<open>MergeError\<close> is the one \<^verbatim>\<open>pd.merge\<close> raises for labels that its suffixes make
  equal. \<open>NotModelled\<close> marks the places where the model stops, the first being \<^verbatim>\<open>int()\<close>
  of a text.
\<close>

datatype error = KeyError "string list" | TypeError | ValueError | MergeError | NotModelled

fun col_pos :: "string list \<Rightarrow> string \<Rightarrow> nat option" where
  "col_pos [] c = None"
| "col_pos (x # xs) c = (if x = c then Some 0 else map_option Suc (col_pos xs c))"

definition nth_cell :: "cell list \<Rightarrow> nat \<Rightarrow> cell" where
  "nth_cell r i = (if i < length r then r ! i else Null)"

definition cell_at :: "string list \<Rightarrow> cell list \<Rightarrow> string \<Rightarrow> cell" where
  "cell_at cs r c = (case col_pos cs c of None \<Rightarrow> Null | Some i \<Rightarrow> nth_cell r i)"

definition column :: "table \<Rightarrow> string \<Rightarrow> cell list" where
  "column t c = map (\<lambda>r. cell_at (columns t) r c) (rows t)"

text \<open>\<^verbatim>\<open>df[c]\<close> for one label: the column, or \<^verbatim>\<open>KeyError(c)\<close>.\<close>

definition getitem :: "table \<Rightarrow> string \<Rightarrow> error + cell list" where
  "getitem t c = (if c \<in> set (columns t) then Inr (column t c) else Inl (KeyError [c]))"

text \<open>
  \<^verbatim>\<open>df[cs]\<close> for a list of labels: the frame of these columns in the order asked for, or
  a \<^verbatim>\<open>KeyError\<close> naming the labels that are not columns.
\<close>

definition select_columns :: "table \<Rightarrow> string list \<Rightarrow> error + table" where
  "select_columns t cs =
     (if list_all (\<lambda>c. c \<in> set (columns t)) cs
      then Inr \<lparr>columns = cs, rows = map (\<lambda>r. map (cell_at (columns t) r) cs) (rows t)\<rparr>
      else Inl (KeyError (filter (\<lambda>c. c \<notin> set (columns t)) cs)))"

subsection \<open>Sums\<close>

text \<open>
  Python's \<^verbatim>\<open>+\<close> on the values of cells: numbers add, texts concatenate, a number and
  a text raise \<^verbatim>\<open>TypeError\<close>. Both reductions below remove the missing values before
  they add, so \<open>py_add\<close> never meets one.
\<close>

fun py_add :: "cell \<Rightarrow> cell \<Rightarrow> error + cell" where
  "py_add (Num a) (Num b) = Inr (Num (a + b))"
| "py_add (Str a) (Str b) = Inr (Str (a @ b))"
| "py_add _ _ = Inl TypeError"

fun reduce_add :: "cell \<Rightarrow> cell list \<Rightarrow> error + cell" where
  "reduce_add acc [] = Inr acc"
| "reduce_add acc (x # xs) =
     (case py_add acc x of Inl e \<Rightarrow> Inl e | Inr a \<Rightarrow> reduce_add a xs)"

definition fill0 :: "cell \<Rightarrow> cell" where
  "fill0 x = (if x = Null then Num 0 else x)"

text \<open>
  \<^verbatim>\<open>Series.sum()\<close> and one row of \<^verbatim>\<open>DataFrame.sum(axis=1)\<close>, with the default
  \<^verbatim>\<open>skipna=True\<close>: missing values count as zero, the sum of nothing is zero.
\<close>

definition nansum :: "cell list \<Rightarrow> error + cell" where
  "nansum xs = (case map fill0 xs of [] \<Rightarrow> Inr (Num 0) | y # ys \<Rightarrow> reduce_add y ys)"

text \<open>Collects the results of a list of computations, stopping at the first error.\<close>

fun sequence :: "(error + 'a) list \<Rightarrow> error + 'a list" where
  "sequence [] = Inr []"
| "sequence (x # xs) =
     (case x of Inl e \<Rightarrow> Inl e
      | Inr v \<Rightarrow> (case sequence xs of Inl e \<Rightarrow> Inl e | Inr vs \<Rightarrow> Inr (v # vs)))"

section \<open>validate_data\<close>

record report =
  missing_columns :: "string list"
  missing_values :: "(string \<times> nat) list"
  is_valid :: bool

text \<open>
  \<^verbatim>\<open>.isnull().sum()\<close>: for every column, by position, its label and the number of rows
  whose cell is missing.
\<close>

definition isnull_sum :: "table \<Rightarrow> (string \<times> nat) list" where
  "isnull_sum t =
     map (\<lambda>i. (columns t ! i, length (filter (\<lambda>r. nth_cell r i = Null) (rows t))))
       [0..<length (columns t)]"

text \<open>
  A Python dict as an association list in insertion order: storing under a key that is
  present replaces the value where it stands.
\<close>

fun dict_set :: "('k \<times> 'v) list \<Rightarrow> 'k \<Rightarrow> 'v \<Rightarrow> ('k \<times> 'v) list" where
  "dict_set [] k v = [(k, v)]"
| "dict_set ((k', v') # d) k v = (if k' = k then (k, v) # d else (k', v') # dict_set d k v)"

definition to_dict :: "('k \<times> 'v) list \<Rightarrow> ('k \<times> 'v) list" where
  "to_dict ps = foldl (\<lambda>d (k, v). dict_set d k v) [] ps"

text \<open>
  The function returns the caller's frame beside its result: no statement of
  \<^verbatim>\<open>validate_data\<close> assigns to \<^verbatim>\<open>df\<close>, so the frame is passed through.
\<close>

definition validate_data :: "table \<Rightarrow> string list \<Rightarrow> table \<times> (error + report)" where
  "validate_data df required_cols =
     (let results = \<lparr>missing_columns = [], missing_values = [], is_valid = True\<rparr>;
          missing_cols = filter (\<lambda>col. col \<notin> set (columns df)) required_cols;
          results = (if missing_cols \<noteq> []
                     then results\<lparr>missing_columns := missing_cols, is_valid := False\<rparr>
                     else results);
          present_cols = filter (\<lambda>col. col \<in> set (columns df)) required_cols
      in case select_columns df present_cols of
           Inl e \<Rightarrow> (df, Inl e)
         | Inr sel \<Rightarrow>
             (let missing_vals = isnull_sum sel;
                  results = results\<lparr>missing_values :=
                              to_dict (filter (\<lambda>(c, n). n > 0) missing_vals)\<rparr>;
                  results = (if missing_values results \<noteq> []
                             then results\<lparr>is_valid := False\<rparr> else results)
              in (df, Inr results)))"

section \<open>error_check\<close>

text \<open>
  The chart objects of holoviews are opaque: a text placeholder, or the bars over the
  frame with its key and value dimensions.
\<close>

datatype plot = Text string | Bars table "string list" "string list"

definition no_data_text :: plot where
  "no_data_text = Text (''No delay data available'' @ [CHR 0x0A] @ ''for this airline / airport'')"

text \<open>
  \<^verbatim>\<open>==\<close> between two values as pandas compares them elementwise: a missing value is
  equal to nothing.
\<close>

fun cell_eq :: "cell \<Rightarrow> cell \<Rightarrow> bool" where
  "cell_eq Null _ = False"
| "cell_eq _ Null = False"
| "cell_eq a b = (a = b)"

text \<open>
  The test \<^verbatim>\<open>data is None or len(data) == 0 or data['Minutes'].sum() == 0\<close> is evaluated
  left to right and stops at the first true disjunct.
\<close>

definition error_check :: "table option \<Rightarrow> error + plot" where
  "error_check data =
     (case data of
        None \<Rightarrow> Inr no_data_text
      | Some d \<Rightarrow>
          if length (rows d) = 0 then Inr no_data_text
          else (case getitem d ''Minutes'' of
                  Inl e \<Rightarrow> Inl e
                | Inr minutes \<Rightarrow>
                    (case nansum minutes of
                       Inl e \<Rightarrow> Inl e
                     | Inr sm \<Rightarrow>
                         if cell_eq sm (Num 0) then Inr no_data_text
                         else Inr (Bars d [''month'', ''Delay Type''] [''Minutes'']))))"

section \<open>display_counts\<close>

text \<open>
  \<^verbatim>\<open>DataFrame.empty\<close>: true when the frame has no row or no column.
\<close>

definition empty_frame :: "table \<Rightarrow> bool" where
  "empty_frame t = (rows t = [] \<or> columns t = [])"

text \<open>Python's \<^verbatim>\<open>int()\<close> of a number rounds towards zero.\<close>

definition trunc :: "rat \<Rightarrow> int" where
  "trunc q = (if q < 0 then \<lceil>q\<rceil> else \<lfloor>q\<rfloor>)"

definition py_int :: "cell \<Rightarrow> error + int" where
  "py_int v = (case v of Num q \<Rightarrow> Inr (trunc q) | Null \<Rightarrow> Inl ValueError | Str s \<Rightarrow> Inl NotModelled)"

text \<open>
  What \<^verbatim>\<open>display_counts\<close> puts on the panel: the airport, year and month asked for and
  the two counts. The layout (\<^verbatim>\<open>pn.Column\<close> of Markdown panes) is not modelled.
\<close>

record summary =
  s_airport :: cell
  s_year :: cell
  s_month :: cell
  cancelled :: int
  diverted :: int

text \<open>
  The column names are parameters with the defaults \<^verbatim>\<open>'year'\<close>, \<^verbatim>\<open>'month'\<close>,
  \<^verbatim>\<open>'airport_name'\<close>, \<^verbatim>\<open>'arr_cancelled'\<close> and \<^verbatim>\<open>'arr_diverted'\<close>; the model takes
  them explicitly. The three comparisons are evaluated in the order year, airport, month.
\<close>

definition display_counts ::
  "table \<Rightarrow> cell \<Rightarrow> cell \<Rightarrow> cell \<Rightarrow> string \<Rightarrow> string \<Rightarrow> string \<Rightarrow> string \<Rightarrow> string
     \<Rightarrow> error + summary" where
  "display_counts df year airport month year_col month_col airport_col cancelled_col diverted_col =
     (case getitem df year_col of Inl e \<Rightarrow> Inl e | Inr ys \<Rightarrow>
      case getitem df airport_col of Inl e \<Rightarrow> Inl e | Inr as \<Rightarrow>
      case getitem df month_col of Inl e \<Rightarrow> Inl e | Inr ms \<Rightarrow>
        let mask = map (\<lambda>(y, a, m). cell_eq y year \<and> cell_eq a airport \<and> cell_eq m month)
                     (zip ys (zip as ms));
            filtered_df = df\<lparr>rows := map fst (filter snd (zip (rows df) mask))\<rparr>
        in if empty_frame filtered_df
           then Inr \<lparr>s_airport = airport, s_year = year, s_month = month,
                     cancelled = 0, diverted = 0\<rparr>
           else
             (case getitem filtered_df cancelled_col of Inl e \<Rightarrow> Inl e | Inr cs \<Rightarrow>
              case nansum cs of Inl e \<Rightarrow> Inl e | Inr csum \<Rightarrow>
              case py_int csum of Inl e \<Rightarrow> Inl e | Inr c \<Rightarrow>
              case getitem filtered_df diverted_col of Inl e \<Rightarrow> Inl e | Inr ds \<Rightarrow>
              case nansum ds of Inl e \<Rightarrow> Inl e | Inr dsum \<Rightarrow>
              case py_int dsum of Inl e \<Rightarrow> Inl e | Inr d \<Rightarrow>
                Inr \<lparr>s_airport = airport, s_year = year, s_month = month,
                      cancelled = c, diverted = d\<rparr>))"

section \<open>Grouping\<close>

text \<open>
  A grouping gives every row a key, a list of cells. \<^verbatim>\<open>groupby\<close> forms one group for
  every key that occurs, drops the rows in which a part of the key is missing
  (\<^verbatim>\<open>dropna=True\<close>) and presents the groups in ascending order of their keys
  (\<^verbatim>\<open>sort=True\<close>). Texts are ordered by code point, numbers by value, and numbers come
  before texts.
\<close>

fun str_le :: "string \<Rightarrow> string \<Rightarrow> bool" where
  "str_le [] ys = True"
| "str_le (x # xs) [] = False"
| "str_le (x # xs) (y # ys) =
     ((of_char x :: nat) < of_char y \<or> (x = y \<and> str_le xs ys))"

fun cell_le :: "cell \<Rightarrow> cell \<Rightarrow> bool" where
  "cell_le (Num a) (Num b) = (a \<le> b)"
| "cell_le (Num a) (Str b) = True"
| "cell_le (Str a) (Num b) = False"
| "cell_le (Str a) (Str b) = str_le a b"
| "cell_le Null b = (b = Null)"
| "cell_le a Null = True"

fun key_le :: "cell list \<Rightarrow> cell list \<Rightarrow> bool" where
  "key_le [] ys = True"
| "key_le (x # xs) [] = False"
| "key_le (x # xs) (y # ys) = (if x = y then key_le xs ys else cell_le x y)"

fun insort_by :: "('a \<Rightarrow> 'a \<Rightarrow> bool) \<Rightarrow> 'a \<Rightarrow> 'a list \<Rightarrow> 'a list" where
  "insort_by le x [] = [x]"
| "insort_by le x (y # ys) = (if le x y then x # y # ys else y # insort_by le x ys)"

definition sort_by :: "('a \<Rightarrow> 'a \<Rightarrow> bool) \<Rightarrow> 'a list \<Rightarrow> 'a list" where
  "sort_by le xs = foldr (insort_by le) xs []"

definition row_key :: "string list \<Rightarrow> string list \<Rightarrow> cell list \<Rightarrow> cell list" where
  "row_key cs ks r = map (cell_at cs r) ks"

text \<open>
  How \<^verbatim>\<open>get_grouper\<close> reads a list of labels. As a rule every label names a key column,
  and a label that is no column is a \<^verbatim>\<open>KeyError\<close>. But a list that has as many labels as
  the frame has rows, and in which some label is no column, is taken as one key for each
  row: the labels themselves are the keys, and nothing is looked up.
\<close>

datatype grouper = Columns "string list" | RowLabels "string list"

definition get_grouper :: "table \<Rightarrow> string list \<Rightarrow> error + grouper" where
  "get_grouper t ks =
     (if length ks = length (rows t) \<and> \<not> list_all (\<lambda>k. k \<in> set (columns t)) ks
      then Inr (RowLabels ks)
      else (case filter (\<lambda>k. k \<notin> set (columns t)) ks of
              k # _ \<Rightarrow> Inl (KeyError [k])
            | [] \<Rightarrow> Inr (Columns ks)))"

text \<open>The key of every row, the names of the index levels and the columns left out of the sums.\<close>

fun grouper_keys :: "table \<Rightarrow> grouper \<Rightarrow> cell list list" where
  "grouper_keys t (Columns ks) = map (row_key (columns t) ks) (rows t)"
| "grouper_keys t (RowLabels ls) = map (\<lambda>l. [Str l]) ls"

fun grouper_names :: "grouper \<Rightarrow> string option list" where
  "grouper_names (Columns ks) = map Some ks"
| "grouper_names (RowLabels ls) = [None]"

fun exclusions :: "grouper \<Rightarrow> string list" where
  "exclusions (Columns ks) = ks"
| "exclusions (RowLabels ls) = []"

definition group_keys :: "cell list list \<Rightarrow> cell list list" where
  "group_keys rk = sort_by key_le (remdups (filter (\<lambda>k. Null \<notin> set k) rk))"

definition group_rows :: "cell list list \<Rightarrow> cell list list \<Rightarrow> cell list \<Rightarrow> cell list list" where
  "group_rows rk rs k = map snd (filter (\<lambda>(k', r). k' = k) (zip rk rs))"

text \<open>
  The sum of one column over one group (\<^verbatim>\<open>GroupBy.sum()\<close>): the missing values are
  skipped, the others are added from the first on, and a group without values sums to zero.
\<close>

definition group_sum :: "cell list \<Rightarrow> error + cell" where
  "group_sum xs =
     (case filter (\<lambda>x. x \<noteq> Null) xs of [] \<Rightarrow> Inr (Num 0) | y # ys \<Rightarrow> reduce_add y ys)"

text \<open>
  A grouped result before \<^verbatim>\<open>reset_index()\<close>: the names of the index levels (a level
  made of row labels has none), the labels of the value columns, and for every group its
  key and its values.
\<close>

record grouped =
  index_names :: "string option list"
  value_columns :: "string list"
  groups :: "(cell list \<times> cell list) list"

text \<open>
  The sums of the value columns \<open>vs\<close> over the groups that the row keys \<open>rk\<close> form.
\<close>

definition sum_group ::
  "table \<Rightarrow> cell list list \<Rightarrow> string list \<Rightarrow> cell list \<Rightarrow> error + (cell list \<times> cell list)" where
  "sum_group t rk vs k =
     (case sequence (map (\<lambda>v. group_sum (map (\<lambda>r. cell_at (columns t) r v) (group_rows rk (rows t) k))) vs) of
        Inl e \<Rightarrow> Inl e
      | Inr vals \<Rightarrow> Inr (k, vals))"

definition grouped_sum :: "table \<Rightarrow> grouper \<Rightarrow> string list \<Rightarrow> error + grouped" where
  "grouped_sum t gr vs =
     (case sequence (map (sum_group t (grouper_keys t gr) vs) (group_keys (grouper_keys t gr))) of
        Inl e \<Rightarrow> Inl e
      | Inr gs \<Rightarrow> Inr \<lparr>index_names = grouper_names gr, value_columns = vs, groups = gs\<rparr>)"

text \<open>
  \<^verbatim>\<open>reset_index()\<close> puts the index levels in front of the value columns. A single level
  without a name becomes the column \<^verbatim>\<open>index\<close>, or \<^verbatim>\<open>level_0\<close> when there is a column
  \<^verbatim>\<open>index\<close> already. It raises \<^verbatim>\<open>ValueError\<close> (cannot insert, already exists) when a
  level's name is already a column, as it is when two levels have the same name. Several
  levels of which one has no name do not arise from the groupings above.
\<close>

definition level_names :: "grouped \<Rightarrow> error + string list" where
  "level_names g =
     (case index_names g of
        [None] \<Rightarrow> Inr [if ''index'' \<in> set (value_columns g) then ''level_0'' else ''index'']
      | ns \<Rightarrow> if list_all (\<lambda>n. n \<noteq> None) ns then Inr (map the ns) else Inl NotModelled)"

definition reset_index :: "grouped \<Rightarrow> error + table" where
  "reset_index g =
     (case level_names g of
        Inl e \<Rightarrow> Inl e
      | Inr names \<Rightarrow>
          if distinct names \<and> list_all (\<lambda>n. n \<notin> set (value_columns g)) names
          then Inr \<lparr>columns = names @ value_columns g,
                    rows = map (\<lambda>(k, vs). k @ vs) (groups g)\<rparr>
          else Inl ValueError)"

section \<open>compute_combo_chart\<close>

text \<open>
  \<^verbatim>\<open>df[c] = values\<close>: an existing column is overwritten where it stands, a new column
  is appended. This assignment changes the frame object the caller passed.
\<close>

definition setitem :: "table \<Rightarrow> string \<Rightarrow> cell list \<Rightarrow> table" where
  "setitem t c vs =
     (case col_pos (columns t) c of
        Some i \<Rightarrow> t\<lparr>rows := map (\<lambda>(r, v). r[i := v]) (zip (rows t) vs)\<rparr>
      | None \<Rightarrow> t\<lparr>columns := columns t @ [c],
                   rows := map (\<lambda>(r, v). r @ [v]) (zip (rows t) vs)\<rparr>)"

text \<open>
  \<^verbatim>\<open>sort_values(by, ascending=False)\<close> is called with the default \<^verbatim>\<open>kind='quicksort'\<close>,
  for which pandas promises a sorted result but no order among equal keys. The sorting
  routine is a parameter of the model: it maps the keys to the order in which their
  positions are to appear, or raises. What the library guarantees of it is stated by
  \<open>argsort_perm\<close> and \<open>argsort_desc\<close> below, and the routine it runs is \<open>nargsort_desc\<close>.
\<close>

type_synonym argsort = "cell list \<Rightarrow> error + nat list"

definition sort_values_desc :: "argsort \<Rightarrow> table \<Rightarrow> string \<Rightarrow> error + table" where
  "sort_values_desc srt t c =
     (case getitem t c of
        Inl e \<Rightarrow> Inl e
      | Inr keys \<Rightarrow>
          (case srt keys of
             Inl e \<Rightarrow> Inl e
           | Inr p \<Rightarrow> Inr (t\<lparr>rows := map (\<lambda>i. rows t ! i) p\<rparr>)))"

definition head :: "nat \<Rightarrow> table \<Rightarrow> table" where
  "head n t = t\<lparr>rows := take n (rows t)\<rparr>"

text \<open>
  The frame \<^verbatim>\<open>grouped\<close> of the function:
  \<^verbatim>\<open>df.groupby([code_col, name_col]).sum().reset_index()\<close>. Every column that is not a
  key column is summed.
\<close>

definition grouped_by_entity :: "table \<Rightarrow> string \<Rightarrow> string \<Rightarrow> error + table" where
  "grouped_by_entity df code_col name_col =
     (case get_grouper df [code_col, name_col] of
        Inl e \<Rightarrow> Inl e
      | Inr gr \<Rightarrow>
          (case grouped_sum df gr (filter (\<lambda>c. c \<notin> set (exclusions gr)) (columns df)) of
             Inl e \<Rightarrow> Inl e
           | Inr g \<Rightarrow> reset_index g))"

text \<open>
  The function returns the frame \<^verbatim>\<open>top10\<close> that it hands to the plotting library (the
  overlay of the bar and the line chart is not modelled, and \<^verbatim>\<open>factor\<close> is used by the
  line chart only), beside the caller's frame as the call leaves it. \<^verbatim>\<open>entity_options\<close>
  maps an entity to the pair of its name column and its code column.
\<close>

definition compute_combo_chart ::
  "argsort \<Rightarrow> table \<Rightarrow> string \<Rightarrow> string \<Rightarrow> (string \<rightharpoonup> string \<times> string) \<Rightarrow> string list
     \<Rightarrow> table \<times> (error + table)" where
  "compute_combo_chart srt df entity factor entity_options delay_factors =
     (case entity_options entity of
        None \<Rightarrow> (df, Inl (KeyError [entity]))
      | Some (name_col, code_col) \<Rightarrow>
          (case select_columns df delay_factors of
             Inl e \<Rightarrow> (df, Inl e)
           | Inr sel \<Rightarrow>
               (case sequence (map nansum (rows sel)) of
                  Inl e \<Rightarrow> (df, Inl e)
                | Inr totals \<Rightarrow>
                    (let df' = setitem df ''total_delay'' totals
                     in (df',
                         case grouped_by_entity df' code_col name_col of
                           Inl e \<Rightarrow> Inl e
                         | Inr grouped \<Rightarrow>
                             (case sort_values_desc srt grouped ''total_delay'' of
                                Inl e \<Rightarrow> Inl e
                              | Inr ranked \<Rightarrow> Inr (head 10 ranked)))))))"

text \<open>Whether a text is among the cells.\<close>

definition has_text :: "cell list \<Rightarrow> bool" where
  "has_text xs = list_ex (\<lambda>x. case x of Str _ \<Rightarrow> True | _ \<Rightarrow> False) xs"

text \<open>
  What pandas guarantees of the sorting routine: the order it returns is a permutation of
  the positions, and on numbers it succeeds and lists the keys in descending order.
\<close>

definition is_num :: "cell \<Rightarrow> bool" where
  "is_num x = (case x of Num _ \<Rightarrow> True | _ \<Rightarrow> False)"

definition key_num :: "cell list \<Rightarrow> nat \<Rightarrow> rat" where
  "key_num ks i = (case ks ! i of Num q \<Rightarrow> q | _ \<Rightarrow> 0)"

definition argsort_perm :: "argsort \<Rightarrow> bool" where
  "argsort_perm srt = (\<forall>ks p. srt ks = Inr p \<longrightarrow> mset p = mset [0..<length ks])"

definition argsort_desc :: "argsort \<Rightarrow> bool" where
  "argsort_desc srt =
     (\<forall>ks. list_all is_num ks \<longrightarrow>
        (\<exists>p. srt ks = Inr p \<and> sorted_wrt (\<ge>) (map (key_num ks) p)))"

text \<open>
  A routine that meets these guarantees and keeps equal keys in their order.
\<close>

definition stable_argsort :: argsort where
  "stable_argsort ks =
     (if list_all is_num ks then Inr (sort_key (\<lambda>i. - key_num ks i) [0..<length ks])
      else Inl TypeError)"

subsection \<open>The sorting routine of the library\<close>

text \<open>
  What \<^verbatim>\<open>sort_values\<close> runs for one column with \<^verbatim>\<open>kind='quicksort'\<close>: pandas'
  \<^verbatim>\<open>nargsort\<close> on top of NumPy's quicksort for index arrays (\<^verbatim>\<open>aquicksort\<close>, the scalar
  routine of \<^verbatim>\<open>npysort/quicksort.cpp\<close>). The index array \<open>ts\<close> is sorted by the keys
  \<open>v\<close> it points to.

  \<^item> A segment of more than 17 places is partitioned: the median of its first, middle and
    last key is the pivot and is parked at the last place but one; the scans from both
    ends stop at keys that are not smaller, and not greater, than the pivot, and swap them.
    Then the pivot is put in its place, the smaller part is sorted at once and the larger
    part is put on the stack.
  \<^item> A segment of at most 17 places is sorted by insertion, which moves a key only past
    greater ones.
  \<^item> After as many nested partitions as twice the binary logarithm of the length the
    routine turns to heapsort for a part taken from the stack; the model stops there
    (\<open>NotModelled\<close>). In the routine a scan never leaves its segment; the model checks that
    the pivot's place is inside, which makes the recursion well-founded.
\<close>

definition swap :: "nat \<Rightarrow> nat \<Rightarrow> nat list \<Rightarrow> nat list" where
  "swap a b ts = (if a < length ts \<and> b < length ts then ts[a := ts ! b, b := ts ! a] else ts)"

definition key_less :: "rat list \<Rightarrow> nat list \<Rightarrow> nat \<Rightarrow> nat \<Rightarrow> bool" where
  "key_less v ts a b = (v ! (ts ! a) < v ! (ts ! b))"

definition median3 :: "rat list \<Rightarrow> nat \<Rightarrow> nat \<Rightarrow> nat \<Rightarrow> nat list \<Rightarrow> nat list" where
  "median3 v pl pm pr ts =
     (let ts1 = (if key_less v ts pm pl then swap pm pl ts else ts);
          ts2 = (if key_less v ts1 pr pm then swap pr pm ts1 else ts1)
      in if key_less v ts2 pm pl then swap pm pl ts2 else ts2)"

definition scan_up :: "rat list \<Rightarrow> rat \<Rightarrow> nat list \<Rightarrow> nat \<Rightarrow> nat" where
  "scan_up v vp ts i = i + 1 + length (takeWhile (\<lambda>t. v ! t < vp) (drop (i + 1) ts))"

definition scan_down :: "rat list \<Rightarrow> rat \<Rightarrow> nat list \<Rightarrow> nat \<Rightarrow> nat" where
  "scan_down v vp ts j = j - 1 - length (takeWhile (\<lambda>t. vp < v ! t) (rev (take j ts)))"

function partition_loop :: "rat list \<Rightarrow> rat \<Rightarrow> nat list \<Rightarrow> nat \<Rightarrow> nat \<Rightarrow> nat list \<times> nat" where
  "partition_loop v vp ts i j =
     (let i' = scan_up v vp ts i; j' = scan_down v vp ts j
      in if i' \<ge> j' then (ts, i') else partition_loop v vp (swap i' j' ts) i' j')"
  by pat_completeness auto
termination
  by (relation "measure (\<lambda>(v, vp, ts, i, j). j - i)")
     (auto simp: scan_up_def scan_down_def Let_def)

definition partition :: "rat list \<Rightarrow> nat \<Rightarrow> nat \<Rightarrow> nat list \<Rightarrow> nat list \<times> nat" where
  "partition v pl pr ts =
     (let pm = pl + (pr - pl) div 2;
          ts1 = median3 v pl pm pr ts;
          vp = v ! (ts1 ! pm);
          ts2 = swap pm (pr - 1) ts1;
          (ts3, i) = partition_loop v vp ts2 pl (pr - 1)
      in (swap i (pr - 1) ts3, i))"

definition insert_back :: "rat list \<Rightarrow> nat list \<Rightarrow> nat \<Rightarrow> nat list" where
  "insert_back v done x =
     (let n = length (takeWhile (\<lambda>y. v ! x < v ! y) (rev done))
      in take (length done - n) done @ [x] @ drop (length done - n) done)"

definition insertion_sort :: "rat list \<Rightarrow> nat \<Rightarrow> nat \<Rightarrow> nat list \<Rightarrow> nat list" where
  "insertion_sort v pl pr ts =
     take pl ts @ foldl (insert_back v) [] (take (pr + 1 - pl) (drop pl ts)) @ drop (pr + 1) ts"

function aquicksort_segment ::
  "rat list \<Rightarrow> nat \<Rightarrow> nat \<Rightarrow> int \<Rightarrow> bool \<Rightarrow> nat list \<Rightarrow> error + nat list" where
  "aquicksort_segment v pl pr cdepth popped ts =
     (if popped \<and> cdepth < 0 then Inl NotModelled
      else if pr - pl > 16 then
        (let (ts', i) = partition v pl pr ts
         in if pl < i \<and> i < pr then
              (if i - pl < pr - i then
                 (case aquicksort_segment v pl (i - 1) (cdepth - 1) False ts' of
                    Inl e \<Rightarrow> Inl e
                  | Inr ts'' \<Rightarrow> aquicksort_segment v (i + 1) pr (cdepth - 1) True ts'')
               else
                 (case aquicksort_segment v (i + 1) pr (cdepth - 1) False ts' of
                    Inl e \<Rightarrow> Inl e
                  | Inr ts'' \<Rightarrow> aquicksort_segment v pl (i - 1) (cdepth - 1) True ts''))
            else Inl NotModelled)
      else Inr (insertion_sort v pl pr ts))"
  by pat_completeness auto
termination
  by (relation "measure (\<lambda>(v, pl, pr, cdepth, popped, ts). pr - pl)") auto

text \<open>
  The depth limit is twice the position of the highest bit of the length.
\<close>

fun msb :: "nat \<Rightarrow> nat" where
  "msb n = (if n \<le> 1 then 0 else 1 + msb (n div 2))"

definition aquicksort :: "rat list \<Rightarrow> error + nat list" where
  "aquicksort v =
     aquicksort_segment v 0 (length v - 1) (2 * int (msb (length v))) False [0..<length v]"

text \<open>
  \<^verbatim>\<open>nargsort(keys, kind='quicksort', ascending=False, na_position='last')\<close>: the keys
  that are present are reversed, sorted in ascending order, and the result is reversed; the
  positions of the missing keys follow. Keys that are texts are outside the model.
\<close>

definition nargsort_desc :: argsort where
  "nargsort_desc ks =
     (if has_text ks then Inl NotModelled
      else
        (let idx = [0..<length ks];
             non_nan_idx = rev (filter (\<lambda>i. ks ! i \<noteq> Null) idx);
             nan_idx = filter (\<lambda>i. ks ! i = Null) idx;
             non_nans = map (key_num ks) non_nan_idx
         in case aquicksort non_nans of
              Inl e \<Rightarrow> Inl e
            | Inr a \<Rightarrow> Inr (rev (map (\<lambda>j. non_nan_idx ! j) a) @ nan_idx)))"

section \<open>prepare_geospatial_data\<close>












section \<open>Notions used to state the properties\<close>

text \<open>A cell that arithmetic accepts: a number or a missing value.\<close>

definition numeric :: "cell \<Rightarrow> bool" where
  "numeric x = (case x of Str _ \<Rightarrow> False | _ \<Rightarrow> True)"

text \<open>The number a numeric cell contributes to a sum: a missing value contributes nothing.\<close>

definition num_of :: "cell \<Rightarrow> rat" where
  "num_of x = (case x of Num q \<Rightarrow> q | _ \<Rightarrow> 0)"

text \<open>
  The row-wise sums \<^verbatim>\<open>df[delay_factors].sum(axis=1)\<close>, when every label is a column.
\<close>

definition row_totals :: "table \<Rightarrow> string list \<Rightarrow> error + cell list" where
  "row_totals df ds = sequence (map (\<lambda>r. nansum (map (cell_at (columns df) r) ds)) (rows df))"

text \<open>
  The rows that agree with a year, an airport and a month on the three configured
  columns (the filter of \<^verbatim>\<open>display_counts\<close>, stated row by row).
\<close>

definition matching_rows ::
  "table \<Rightarrow> string \<Rightarrow> cell \<Rightarrow> string \<Rightarrow> cell \<Rightarrow> string \<Rightarrow> cell \<Rightarrow> cell list list" where
  "matching_rows df year_col year airport_col airport month_col month =
     filter (\<lambda>r. cell_eq (cell_at (columns df) r year_col) year \<and>
                 cell_eq (cell_at (columns df) r airport_col) airport \<and>
                 cell_eq (cell_at (columns df) r month_col) month) (rows df)"

text \<open>
  The distinct entity keys of a table, as the specification counts them: the distinct
  pairs of a code and a name that occur in a row.
\<close>

definition distinct_entity_keys :: "table \<Rightarrow> string \<Rightarrow> string \<Rightarrow> cell list list" where
  "distinct_entity_keys df code_col name_col =
     remdups (map (\<lambda>r. [cell_at (columns df) r code_col, cell_at (columns df) r name_col]) (rows df))"

text \<open>Those of them in which neither the code nor the name is missing.\<close>

definition complete_entity_keys :: "table \<Rightarrow> string \<Rightarrow> string \<Rightarrow> cell list list" where
  "complete_entity_keys df code_col name_col =
     filter (\<lambda>k. Null \<notin> set k) (distinct_entity_keys df code_col name_col)"

text \<open>
  A column that \<^verbatim>\<open>GroupBy.sum()\<close> accepts: its cells are numbers or missing, or they
  are texts or missing (texts are concatenated).
\<close>

definition summable :: "cell list \<Rightarrow> bool" where
  "summable xs = (list_all numeric xs \<or> list_all (\<lambda>x. \<not> is_num x) xs)"

text \<open>
  A table that the ranking accepts: its labels are distinct and its rows complete, the two
  entity keys are different columns of it and neither is \<^verbatim>\<open>total_delay\<close>, the
  delay-cause columns are columns of it and hold numbers or missing values, and every
  other column can be summed.
\<close>

definition rankable :: "table \<Rightarrow> string \<Rightarrow> string \<Rightarrow> string list \<Rightarrow> bool" where
  "rankable df code_col name_col ds =
     (wf_table df \<and> code_col \<noteq> name_col \<and>
      code_col \<in> set (columns df) \<and> name_col \<in> set (columns df) \<and>
      code_col \<noteq> ''total_delay'' \<and> name_col \<noteq> ''total_delay'' \<and>
      set ds \<subseteq> set (columns df) \<and>
      (\<forall>r\<in>set (rows df). \<forall>d\<in>set ds. numeric (cell_at (columns df) r d)) \<and>
      (\<forall>v\<in>set (columns df). v \<notin> {code_col, name_col, ''total_delay''} \<longrightarrow>
          summable (column df v)))"






section \<open>Properties of the helpers\<close>

lemma col_pos_None: "col_pos cs c = None \<longleftrightarrow> c \<notin> set cs"
  by (induction cs) auto

lemma col_pos_Some: "col_pos cs c = Some i \<Longrightarrow> i < length cs \<and> cs ! i = c"
  by (induction cs arbitrary: i) (auto split: if_splits)

lemma nth_cell_map: "i < length cs \<Longrightarrow> nth_cell (map f cs) i = f (cs ! i)"
  by (simp add: nth_cell_def)

subsection \<open>Sums of numeric cells\<close>

lemma reduce_add_numeric:
  "list_all numeric xs \<Longrightarrow>
     reduce_add (Num a) (map fill0 xs) = Inr (Num (a + sum_list (map num_of xs)))"
  by (induction xs arbitrary: a)
     (auto simp: numeric_def num_of_def fill0_def split: cell.splits)

lemma nansum_numeric:
  "list_all numeric xs \<Longrightarrow> nansum xs = Inr (Num (sum_list (map num_of xs)))"
proof (cases xs)
  case Nil
  then show ?thesis by (simp add: nansum_def)
next
  case (Cons x ys)
  assume "list_all numeric xs"
  with Cons have x: "numeric x" and ys: "list_all numeric ys" by simp_all
  from x have "fill0 x = Num (num_of x)"
    by (cases x) (simp_all add: fill0_def num_of_def numeric_def)
  with Cons reduce_add_numeric [OF ys, of "num_of x"] show ?thesis
    by (simp add: nansum_def)
qed

section \<open>Properties of validate_data\<close>

lemma dict_set_nonempty: "dict_set d k v \<noteq> []"
  by (cases d) (auto split: if_splits)

lemma foldl_dict_set_nonempty:
  "d \<noteq> [] \<or> ps \<noteq> [] \<Longrightarrow> foldl (\<lambda>d (k, v). dict_set d k v) d ps \<noteq> []"
  by (induction ps arbitrary: d) (auto simp: dict_set_nonempty split: prod.splits)

lemma to_dict_empty: "to_dict ps = [] \<longleftrightarrow> ps = []"
  using foldl_dict_set_nonempty [of "[]" ps] by (auto simp: to_dict_def)

lemma select_present:
  "select_columns df (filter (\<lambda>c. c \<in> set (columns df)) R) =
     Inr \<lparr>columns = filter (\<lambda>c. c \<in> set (columns df)) R,
          rows = map (\<lambda>r. map (cell_at (columns df) r) (filter (\<lambda>c. c \<in> set (columns df)) R))
                   (rows df)\<rparr>"
  by (simp add: select_columns_def list_all_iff)

lemma null_counts_positive:
  "filter (\<lambda>(c, n). n > 0)
     (isnull_sum \<lparr>columns = P, rows = map (\<lambda>r. map (cell_at cs r) P) rs\<rparr>) \<noteq> []
   \<longleftrightarrow> (\<exists>c\<in>set P. \<exists>r\<in>set rs. cell_at cs r c = Null)"
proof -
  have "filter (\<lambda>(c, n). n > 0)
     (isnull_sum \<lparr>columns = P, rows = map (\<lambda>r. map (cell_at cs r) P) rs\<rparr>) \<noteq> []
     \<longleftrightarrow> (\<exists>i<length P. \<exists>r\<in>set rs. nth_cell (map (cell_at cs r) P) i = Null)"
    by (auto simp: isnull_sum_def filter_empty_conv)
  also have "\<dots> \<longleftrightarrow> (\<exists>i<length P. \<exists>r\<in>set rs. cell_at cs r (P ! i) = Null)"
    by (metis nth_cell_map)
  also have "\<dots> \<longleftrightarrow> (\<exists>c\<in>set P. \<exists>r\<in>set rs. cell_at cs r c = Null)"
    by (metis in_set_conv_nth)
  finally show ?thesis .
qed

lemma null_counts_empty:
  "filter (\<lambda>(c, n). n > 0)
     (isnull_sum \<lparr>columns = P, rows = map (\<lambda>r. map (cell_at cs r) P) rs\<rparr>) = []
   \<longleftrightarrow> \<not> (\<exists>c\<in>set P. \<exists>r\<in>set rs. cell_at cs r c = Null)"
  using null_counts_positive [of P cs rs] by blast

lemma validate_data_report:
  "\<exists>rep. validate_data df R = (df, Inr rep) \<and>
     missing_columns rep = filter (\<lambda>c. c \<notin> set (columns df)) R \<and>
     (missing_values rep \<noteq> [] \<longleftrightarrow>
        (\<exists>c\<in>set (filter (\<lambda>c. c \<in> set (columns df)) R).
           \<exists>r\<in>set (rows df). cell_at (columns df) r c = Null)) \<and>
     (is_valid rep \<longleftrightarrow> missing_columns rep = [] \<and> missing_values rep = [])"
  unfolding validate_data_def select_present Let_def
  by (simp add: to_dict_empty null_counts_empty del: filter_filter set_filter)

text \<open>
  C2. For every table \<open>T\<close> and every sequence \<open>R\<close> of required columns,
  \<^verbatim>\<open>validate_data(T, R)\<close> returns a report; its \<open>is_valid\<close> is false if and only if
  some column of \<open>R\<close> is not a column of \<open>T\<close>, or some column of \<open>R\<close> that is a column of
  \<open>T\<close> has a missing value in at least one row; and \<open>is_valid\<close> is true exactly when
  \<open>missing_columns\<close> and \<open>missing_values\<close> are both empty.
\<close>

theorem validate_data_is_valid:
  "\<exists>rep. snd (validate_data T R) = Inr rep \<and>
     (is_valid rep = False \<longleftrightarrow>
        (\<exists>c\<in>set R. c \<notin> set (columns T)) \<or>
        (\<exists>c\<in>set R. c \<in> set (columns T) \<and>
           (\<exists>r\<in>set (rows T). cell_at (columns T) r c = Null))) \<and>
     (is_valid rep \<longleftrightarrow> missing_columns rep = [] \<and> missing_values rep = [])"
proof -
  obtain rep where rep: "validate_data T R = (T, Inr rep)"
    "missing_columns rep = filter (\<lambda>c. c \<notin> set (columns T)) R"
    "missing_values rep \<noteq> [] \<longleftrightarrow>
       (\<exists>c\<in>set (filter (\<lambda>c. c \<in> set (columns T)) R).
          \<exists>r\<in>set (rows T). cell_at (columns T) r c = Null)"
    "is_valid rep \<longleftrightarrow> missing_columns rep = [] \<and> missing_values rep = []"
    using validate_data_report [of T R] by blast
  have "missing_columns rep \<noteq> [] \<longleftrightarrow> (\<exists>c\<in>set R. c \<notin> set (columns T))"
    by (auto simp: rep(2) filter_empty_conv)
  moreover have "missing_values rep \<noteq> [] \<longleftrightarrow>
      (\<exists>c\<in>set R. c \<in> set (columns T) \<and> (\<exists>r\<in>set (rows T). cell_at (columns T) r c = Null))"
    unfolding rep(3) by auto
  ultimately show ?thesis using rep(1,4) by auto
qed

theorem validate_data_is_valid_witness:
  "\<exists>rep. snd (validate_data
              \<lparr>columns = [''year'', ''airport''],
               rows = [[Num 2023, Null], [Num 2024, Str ''JFK'']]\<rparr>
              [''airport'', ''month'']) = Inr rep \<and>
         is_valid rep = False \<and> missing_columns rep = [''month''] \<and>
         missing_values rep = [(''airport'', 1)]"
proof -
  let ?T = "\<lparr>columns = [''year'', ''airport''],
             rows = [[Num 2023, Null], [Num 2024, Str ''JFK'']]\<rparr>"
  have v: "snd (validate_data ?T [''airport'', ''month'']) =
      Inr \<lparr>missing_columns = [''month''], missing_values = [(''airport'', 1)],
           is_valid = False\<rparr>"
    by code_simp
  from validate_data_is_valid [of ?T "[''airport'', ''month'']"] v show ?thesis
    by simp
qed

text \<open>
  C9, as amended. \<^verbatim>\<open>validate_data\<close> never raises and leaves the table as it was: for
  every table and every sequence of required columns it returns a report. When no
  required column is a column of the table (as for a table without columns), every
  required column is listed in \<open>missing_columns\<close>, in order, \<open>missing_values\<close> is empty,
  and \<open>is_valid\<close> is false exactly when at least one column is required.
\<close>

theorem validate_data_total:
  "\<exists>rep. validate_data T R = (T, Inr rep) \<and>
     (set R \<inter> set (columns T) = {} \<longrightarrow>
        rep = \<lparr>missing_columns = R, missing_values = [], is_valid = (R = [])\<rparr>)"
proof -
  obtain rep where rep: "validate_data T R = (T, Inr rep)"
    "missing_columns rep = filter (\<lambda>c. c \<notin> set (columns T)) R"
    "missing_values rep \<noteq> [] \<longleftrightarrow>
       (\<exists>c\<in>set (filter (\<lambda>c. c \<in> set (columns T)) R).
          \<exists>r\<in>set (rows T). cell_at (columns T) r c = Null)"
    "is_valid rep \<longleftrightarrow> missing_columns rep = [] \<and> missing_values rep = []"
    using validate_data_report [of T R] by blast
  have "rep = \<lparr>missing_columns = R, missing_values = [], is_valid = (R = [])\<rparr>"
    if d: "set R \<inter> set (columns T) = {}"
  proof -
    from d have a: "filter (\<lambda>c. c \<notin> set (columns T)) R = R"
      by (auto simp: filter_id_conv)
    from d have p: "filter (\<lambda>c. c \<in> set (columns T)) R = []"
      by (auto simp: filter_empty_conv)
    from rep(3) p have mv: "missing_values rep = []" by simp
    from rep(2) a have mc: "missing_columns rep = R" by simp
    from rep(4) mv mc have iv: "is_valid rep = (R = [])" by simp
    from mv mc iv show ?thesis by (cases rep) simp
  qed
  with rep(1) show ?thesis by blast
qed

theorem validate_data_total_witness:
  "validate_data \<lparr>columns = [], rows = []\<rparr> [''year'', ''month''] =
     (\<lparr>columns = [], rows = []\<rparr>,
      Inr \<lparr>missing_columns = [''year'', ''month''], missing_values = [], is_valid = False\<rparr>)"
  using validate_data_total [of "\<lparr>columns = [], rows = []\<rparr>" "[''year'', ''month'']"]
  by auto

theorem validate_data_empty_required_counterexample:
  "validate_data \<lparr>columns = [], rows = []\<rparr> [] =
     (\<lparr>columns = [], rows = []\<rparr>,
      Inr \<lparr>missing_columns = [], missing_values = [], is_valid = True\<rparr>)"
  by code_simp

section \<open>Properties of error_check\<close>

text \<open>
  C10. For an input that is \<^verbatim>\<open>None\<close> or has no row, \<^verbatim>\<open>error_check\<close> returns the
  placeholder and does not read the column \<^verbatim>\<open>'Minutes'\<close>: it does not raise even when the
  column is absent. For an input with at least one row the column is read: when it is
  absent the call raises \<^verbatim>\<open>KeyError('Minutes')\<close>, and when it is present the sum of the
  column decides between the placeholder and the bars.
\<close>

theorem error_check_guard:
  "error_check None = Inr no_data_text \<and>
   (rows d = [] \<longrightarrow> error_check (Some d) = Inr no_data_text) \<and>
   (rows d \<noteq> [] \<and> ''Minutes'' \<notin> set (columns d) \<longrightarrow>
      error_check (Some d) = Inl (KeyError [''Minutes''])) \<and>
   (rows d \<noteq> [] \<and> ''Minutes'' \<in> set (columns d) \<longrightarrow>
      error_check (Some d) =
        (case nansum (column d ''Minutes'') of
           Inl e \<Rightarrow> Inl e
         | Inr sm \<Rightarrow> if cell_eq sm (Num 0) then Inr no_data_text
                      else Inr (Bars d [''month'', ''Delay Type''] [''Minutes''])))"
  by (simp add: error_check_def getitem_def)

theorem error_check_guard_witness:
  "error_check (Some \<lparr>columns = [''month''], rows = []\<rparr>) = Inr no_data_text \<and>
   error_check (Some \<lparr>columns = [''month''], rows = [[Num 1]]\<rparr>) = Inl (KeyError [''Minutes'']) \<and>
   error_check (Some \<lparr>columns = [''month'', ''Minutes''], rows = [[Num 1, Num 0], [Num 2, Null]]\<rparr>)
     = Inr no_data_text \<and>
   error_check (Some \<lparr>columns = [''month'', ''Minutes''], rows = [[Num 1, Num 0], [Num 2, Num 7]]\<rparr>)
     = Inr (Bars \<lparr>columns = [''month'', ''Minutes''], rows = [[Num 1, Num 0], [Num 2, Num 7]]\<rparr>
              [''month'', ''Delay Type''] [''Minutes''])"
  using error_check_guard [of "\<lparr>columns = [''month''], rows = []\<rparr>"]
    error_check_guard [of "\<lparr>columns = [''month''], rows = [[Num 1]]\<rparr>"]
    error_check_guard [of "\<lparr>columns = [''month'', ''Minutes''], rows = [[Num 1, Num 0], [Num 2, Null]]\<rparr>"]
    error_check_guard [of "\<lparr>columns = [''month'', ''Minutes''], rows = [[Num 1, Num 0], [Num 2, Num 7]]\<rparr>"]
  by (simp add: column_def cell_at_def nth_cell_def nansum_def fill0_def)

section \<open>Properties of display_counts\<close>

lemma mask_filter:
  "map fst (filter snd (zip xs (map p xs))) = filter p xs"
  by (induction xs) auto

lemma zip3_map:
  "zip (map f xs) (zip (map g xs) (map h xs)) = map (\<lambda>x. (f x, g x, h x)) xs"
  by (induction xs) auto

lemma display_counts_unfold:
  assumes "year_col \<in> set (columns df)" "airport_col \<in> set (columns df)"
    "month_col \<in> set (columns df)"
  shows "display_counts df year airport month year_col month_col airport_col cancelled_col diverted_col =
     (let filtered_df = df\<lparr>rows := matching_rows df year_col year airport_col airport month_col month\<rparr>
        in if rows filtered_df = []
           then Inr \<lparr>s_airport = airport, s_year = year, s_month = month,
                     cancelled = 0, diverted = 0\<rparr>
           else
             (case getitem filtered_df cancelled_col of Inl e \<Rightarrow> Inl e | Inr cs \<Rightarrow>
              case nansum cs of Inl e \<Rightarrow> Inl e | Inr csum \<Rightarrow>
              case py_int csum of Inl e \<Rightarrow> Inl e | Inr c \<Rightarrow>
              case getitem filtered_df diverted_col of Inl e \<Rightarrow> Inl e | Inr ds \<Rightarrow>
              case nansum ds of Inl e \<Rightarrow> Inl e | Inr dsum \<Rightarrow>
              case py_int dsum of Inl e \<Rightarrow> Inl e | Inr d \<Rightarrow>
                Inr \<lparr>s_airport = airport, s_year = year, s_month = month,
                      cancelled = c, diverted = d\<rparr>))"
proof -
  have cols: "columns df \<noteq> []" using assms(1) by auto
  have mask: "map (\<lambda>(y, a, m). cell_eq y year \<and> cell_eq a airport \<and> cell_eq m month)
                     (zip (column df year_col) (zip (column df airport_col) (column df month_col)))
     = map (\<lambda>r. cell_eq (cell_at (columns df) r year_col) year \<and>
                 cell_eq (cell_at (columns df) r airport_col) airport \<and>
                 cell_eq (cell_at (columns df) r month_col) month) (rows df)"
    by (simp add: column_def zip3_map)
  show ?thesis
    apply (simp only: display_counts_def getitem_def assms if_True sum.case Let_def mask mask_filter
        matching_rows_def [symmetric])
    apply (simp add: empty_frame_def cols)
    done
qed

text \<open>
  C6. On a table that has the three configured filter columns, \<^verbatim>\<open>display_counts\<close>
  keeps the rows that are equal to the year, the airport and the month asked for on all
  three columns. If no row matches, both counts are 0 and nothing is raised. Otherwise,
  the cancellation and diversion columns being numeric columns of the table, each count
  is the sum of its column over the matching rows, cast to an integer by truncation.
\<close>

theorem display_counts_sums:
  assumes "year_col \<in> set (columns df)" "airport_col \<in> set (columns df)"
    "month_col \<in> set (columns df)"
  shows "(matching_rows df year_col year airport_col airport month_col month = [] \<longrightarrow>
           (\<exists>s. display_counts df year airport month year_col month_col airport_col
                   cancelled_col diverted_col = Inr s \<and> cancelled s = 0 \<and> diverted s = 0)) \<and>
         (matching_rows df year_col year airport_col airport month_col month \<noteq> [] \<and>
          cancelled_col \<in> set (columns df) \<and> diverted_col \<in> set (columns df) \<and>
          (\<forall>r \<in> set (matching_rows df year_col year airport_col airport month_col month).
              numeric (cell_at (columns df) r cancelled_col) \<and>
              numeric (cell_at (columns df) r diverted_col)) \<longrightarrow>
           (\<exists>s. display_counts df year airport month year_col month_col airport_col
                   cancelled_col diverted_col = Inr s \<and>
                cancelled s =
                  trunc (\<Sum>r\<leftarrow>matching_rows df year_col year airport_col airport month_col month.
                           num_of (cell_at (columns df) r cancelled_col)) \<and>
                diverted s =
                  trunc (\<Sum>r\<leftarrow>matching_rows df year_col year airport_col airport month_col month.
                           num_of (cell_at (columns df) r diverted_col))))"
proof -
  let ?M = "matching_rows df year_col year airport_col airport month_col month"
  note u = display_counts_unfold [OF assms, of year airport month cancelled_col diverted_col]
  have zero: "?M = [] \<longrightarrow>
           (\<exists>s. display_counts df year airport month year_col month_col airport_col
                   cancelled_col diverted_col = Inr s \<and> cancelled s = 0 \<and> diverted s = 0)"
    by (simp add: u)
  have sums: "\<exists>s. display_counts df year airport month year_col month_col airport_col
                   cancelled_col diverted_col = Inr s \<and>
                cancelled s = trunc (\<Sum>r\<leftarrow>?M. num_of (cell_at (columns df) r cancelled_col)) \<and>
                diverted s = trunc (\<Sum>r\<leftarrow>?M. num_of (cell_at (columns df) r diverted_col))"
    if ne: "?M \<noteq> []" and c: "cancelled_col \<in> set (columns df)"
      and d: "diverted_col \<in> set (columns df)"
      and n: "\<forall>r \<in> set ?M. numeric (cell_at (columns df) r cancelled_col) \<and>
              numeric (cell_at (columns df) r diverted_col)"
  proof -
    have nc: "list_all numeric (map (\<lambda>r. cell_at (columns df) r cancelled_col) ?M)"
      and nd: "list_all numeric (map (\<lambda>r. cell_at (columns df) r diverted_col) ?M)"
      using n by (simp_all add: list_all_iff)
    show ?thesis
      using ne c d nansum_numeric [OF nc] nansum_numeric [OF nd]
      by (simp add: u getitem_def column_def py_int_def comp_def)
  qed
  from zero sums show ?thesis by blast
qed

theorem display_counts_sums_witness:
  "(\<exists>s. display_counts
           \<lparr>columns = [''year'', ''month'', ''airport'', ''arr_cancelled'', ''arr_diverted''],
            rows = [[Num 2023, Num 1, Str ''JFK'', Num 5, Num 2],
                    [Num 2023, Num 1, Str ''JFK'', Num 3, Num 0],
                    [Num 2023, Num 2, Str ''JFK'', Num 9, Num 9]]\<rparr>
           (Num 2023) (Str ''JFK'') (Num 1)
           ''year'' ''month'' ''airport'' ''arr_cancelled'' ''arr_diverted'' = Inr s \<and>
        cancelled s = 8 \<and> diverted s = 2) \<and>
   (\<exists>s. display_counts
           \<lparr>columns = [''year'', ''month'', ''airport''],
            rows = [[Num 2023, Num 1, Str ''JFK'']]\<rparr>
           (Num 2023) (Str ''LAX'') (Num 1)
           ''year'' ''month'' ''airport'' ''arr_cancelled'' ''arr_diverted'' = Inr s \<and>
        cancelled s = 0 \<and> diverted s = 0)"
proof -
  let ?A = "\<lparr>columns = [''year'', ''month'', ''airport'', ''arr_cancelled'', ''arr_diverted''],
            rows = [[Num 2023, Num 1, Str ''JFK'', Num 5, Num 2],
                    [Num 2023, Num 1, Str ''JFK'', Num 3, Num 0],
                    [Num 2023, Num 2, Str ''JFK'', Num 9, Num 9]]\<rparr>"
  let ?B = "\<lparr>columns = [''year'', ''month'', ''airport''],
            rows = [[Num 2023, Num 1, Str ''JFK'']]\<rparr>"
  have mA: "matching_rows ?A ''year'' (Num 2023) ''airport'' (Str ''JFK'') ''month'' (Num 1) =
      [[Num 2023, Num 1, Str ''JFK'', Num 5, Num 2], [Num 2023, Num 1, Str ''JFK'', Num 3, Num 0]]"
    by (simp add: matching_rows_def cell_at_def nth_cell_def)
  have mB: "matching_rows ?B ''year'' (Num 2023) ''airport'' (Str ''LAX'') ''month'' (Num 1) = []"
    by (simp add: matching_rows_def cell_at_def nth_cell_def)
  have a: "\<exists>s. display_counts ?A (Num 2023) (Str ''JFK'') (Num 1)
           ''year'' ''month'' ''airport'' ''arr_cancelled'' ''arr_diverted'' = Inr s \<and>
        cancelled s = 8 \<and> diverted s = 2"
    using display_counts_sums [of "''year''" ?A "''airport''" "''month''" "Num 2023" "Str ''JFK''"
        "Num 1" "''arr_cancelled''" "''arr_diverted''"]
    by (simp add: mA cell_at_def nth_cell_def numeric_def num_of_def trunc_def)
  have b: "\<exists>s. display_counts ?B (Num 2023) (Str ''LAX'') (Num 1)
           ''year'' ''month'' ''airport'' ''arr_cancelled'' ''arr_diverted'' = Inr s \<and>
        cancelled s = 0 \<and> diverted s = 0"
    using display_counts_sums [of "''year''" ?B "''airport''" "''month''" "Num 2023" "Str ''LAX''"
        "Num 1" "''arr_cancelled''" "''arr_diverted''"]
    by (simp add: mB)
  from a b show ?thesis by blast
qed

section \<open>Properties of compute_combo_chart\<close>

lemma col_pos_append:
  "col_pos (xs @ [c]) c' =
     (case col_pos xs c' of Some i \<Rightarrow> Some i
      | None \<Rightarrow> if c' = c then Some (length xs) else None)"
  by (induction xs) (auto split: option.splits)

lemma col_pos_inj:
  "col_pos cs a = Some i \<Longrightarrow> col_pos cs b = Some i \<Longrightarrow> a = b"
  using col_pos_Some by blast

lemma sequence_length: "sequence xs = Inr ys \<Longrightarrow> length ys = length xs"
  by (induction xs arbitrary: ys) (auto split: sum.splits)

lemma sequence_map_Inr: "sequence (map Inr xs) = Inr xs"
  by (induction xs) auto

lemma wf_rowD: "wf_table t \<Longrightarrow> r \<in> set (rows t) \<Longrightarrow> length r = length (columns t)"
  by (simp add: wf_table_def list_all_iff)

subsection \<open>Assignment of a column\<close>

lemma setitem_rows_length:
  "length vs = length (rows t) \<Longrightarrow> length (rows (setitem t c vs)) = length (rows t)"
  by (simp add: setitem_def split: option.splits)

lemma setitem_columns:
  "columns (setitem t c vs) = (if c \<in> set (columns t) then columns t else columns t @ [c])"
  by (auto simp: setitem_def col_pos_None split: option.splits)
     (metis col_pos_None option.distinct(1))

lemma setitem_wf:
  assumes "wf_table t"
  shows "wf_table (setitem t c vs)"
proof (cases "col_pos (columns t) c")
  case None
  then have "c \<notin> set (columns t)" by (simp add: col_pos_None)
  with assms None show ?thesis
    by (auto simp: wf_table_def setitem_def list_all_iff dest!: set_zip_leftD)
next
  case (Some i)
  with assms show ?thesis
    by (auto simp: wf_table_def setitem_def list_all_iff dest!: set_zip_leftD)
qed

lemma cell_at_update_other:
  assumes "col_pos cs c = Some i" "c' \<noteq> c"
  shows "cell_at cs (r[i := v]) c' = cell_at cs r c'"
proof (cases "col_pos cs c'")
  case None
  then show ?thesis by (simp add: cell_at_def)
next
  case (Some j)
  with assms have "j \<noteq> i" using col_pos_inj by blast
  with Some show ?thesis by (simp add: cell_at_def nth_cell_def)
qed

lemma cell_at_append_other:
  assumes "length r = length cs" "c' \<noteq> c"
  shows "cell_at (cs @ [c]) (r @ [v]) c' = cell_at cs r c'"
proof (cases "col_pos cs c'")
  case None
  with assms show ?thesis by (simp add: cell_at_def col_pos_append)
next
  case (Some j)
  then have "j < length cs" using col_pos_Some by blast
  with Some assms show ?thesis
    by (simp add: cell_at_def col_pos_append nth_cell_def nth_append)
qed

lemma map_zip_fst_cong:
  assumes "length vs = length rs" "\<And>r v. r \<in> set rs \<Longrightarrow> f (g r v) = f' r"
  shows "map (\<lambda>x. f (case x of (r, v) \<Rightarrow> g r v)) (zip rs vs) = map f' rs"
  using assms
proof (induction rs arbitrary: vs)
  case Nil
  then show ?case by simp
next
  case (Cons r rs)
  then obtain v vs' where "vs = v # vs'" by (cases vs) auto
  with Cons show ?case by simp
qed

lemma map_zip_snd_cong:
  assumes "length vs = length rs" "\<And>r v. r \<in> set rs \<Longrightarrow> f (g r v) = v"
  shows "map (\<lambda>x. f (case x of (r, v) \<Rightarrow> g r v)) (zip rs vs) = vs"
  using assms
proof (induction rs arbitrary: vs)
  case Nil
  then show ?case by simp
next
  case (Cons r rs)
  then obtain v vs' where "vs = v # vs'" by (cases vs) auto
  with Cons show ?case by simp
qed

lemma setitem_column_other:
  assumes "wf_table t" "length vs = length (rows t)" "c' \<noteq> c"
  shows "column (setitem t c vs) c' = column t c'"
proof (cases "col_pos (columns t) c")
  case None
  have "map (\<lambda>x. (\<lambda>r. cell_at (columns t @ [c]) r c') (case x of (r, v) \<Rightarrow> r @ [v]))
          (zip (rows t) vs) = map (\<lambda>r. cell_at (columns t) r c') (rows t)"
  proof (rule map_zip_fst_cong [OF assms(2)])
    fix r v assume "r \<in> set (rows t)"
    then have "length r = length (columns t)" using assms(1) by (rule wf_rowD [rotated])
    then show "cell_at (columns t @ [c]) (r @ [v]) c' = cell_at (columns t) r c'"
      using assms(3) by (rule cell_at_append_other)
  qed
  with None show ?thesis by (simp add: column_def setitem_def comp_def)
next
  case (Some i)
  have "map (\<lambda>x. (\<lambda>r. cell_at (columns t) r c') (case x of (r, v) \<Rightarrow> r[i := v]))
          (zip (rows t) vs) = map (\<lambda>r. cell_at (columns t) r c') (rows t)"
    by (rule map_zip_fst_cong [OF assms(2)]) (rule cell_at_update_other [OF Some assms(3)])
  with Some show ?thesis by (simp add: column_def setitem_def comp_def)
qed

lemma setitem_column_same:
  assumes "wf_table t" "length vs = length (rows t)"
  shows "column (setitem t c vs) c = vs"
proof (cases "col_pos (columns t) c")
  case None
  have "map (\<lambda>x. (\<lambda>r. cell_at (columns t @ [c]) r c) (case x of (r, v) \<Rightarrow> r @ [v]))
          (zip (rows t) vs) = vs"
  proof (rule map_zip_snd_cong [OF assms(2)])
    fix r v assume "r \<in> set (rows t)"
    then have "length r = length (columns t)" using assms(1) by (rule wf_rowD [rotated])
    then have len: "length (columns t) = length r" by simp
    have "(r @ [v]) ! length (columns t) = v" "length (columns t) < length (r @ [v])"
      unfolding len by simp_all
    with None show "cell_at (columns t @ [c]) (r @ [v]) c = v"
      by (simp add: cell_at_def col_pos_append nth_cell_def)
  qed
  with None show ?thesis by (simp add: column_def setitem_def comp_def)
next
  case (Some i)
  then have i: "i < length (columns t)" using col_pos_Some by blast
  have "map (\<lambda>x. (\<lambda>r. cell_at (columns t) r c) (case x of (r, v) \<Rightarrow> r[i := v]))
          (zip (rows t) vs) = vs"
  proof (rule map_zip_snd_cong [OF assms(2)])
    fix r v assume "r \<in> set (rows t)"
    then have "length r = length (columns t)" using assms(1) by (rule wf_rowD [rotated])
    with Some i show "cell_at (columns t) (r[i := v]) c = v"
      by (simp add: cell_at_def nth_cell_def)
  qed
  with Some show ?thesis by (simp add: column_def setitem_def comp_def)
qed

lemma map_zip_id:
  assumes "length vs = length rs" "\<And>i. i < length rs \<Longrightarrow> g (rs ! i) (vs ! i) = rs ! i"
  shows "map (\<lambda>(r, v). g r v) (zip rs vs) = rs"
  using assms by (intro nth_equalityI) auto

lemma setitem_same:
  assumes "wf_table t" "c \<in> set (columns t)" "column t c = vs"
  shows "setitem t c vs = t"
proof -
  from assms(2) obtain i where i: "col_pos (columns t) c = Some i"
    using col_pos_None by (cases "col_pos (columns t) c") auto
  have len: "length vs = length (rows t)" using assms(3) by (auto simp: column_def)
  have "map (\<lambda>(r, v). r[i := v]) (zip (rows t) vs) = rows t"
  proof (rule map_zip_id [OF len])
    fix k assume k: "k < length (rows t)"
    from assms(3) k have "vs ! k = cell_at (columns t) (rows t ! k) c"
      by (auto simp: column_def)
    moreover have "length (rows t ! k) = length (columns t)"
      using assms(1) k by (simp add: wf_rowD)
    moreover have "i < length (columns t)" using i col_pos_Some by blast
    ultimately have "vs ! k = rows t ! k ! i"
      using i by (simp add: cell_at_def nth_cell_def)
    then show "(rows t ! k)[i := vs ! k] = rows t ! k" by simp
  qed
  with i show ?thesis by (simp add: setitem_def)
qed


subsection \<open>The caller's table\<close>

lemma compute_combo_chart_fst:
  "fst (compute_combo_chart srt df entity factor eo ds) =
     (case eo entity of
        None \<Rightarrow> df
      | Some nc \<Rightarrow>
          if list_all (\<lambda>d. d \<in> set (columns df)) ds
          then (case row_totals df ds of Inl e \<Rightarrow> df | Inr totals \<Rightarrow> setitem df ''total_delay'' totals)
          else df)"
  by (simp add: compute_combo_chart_def select_columns_def row_totals_def Let_def comp_def
      split: option.splits sum.splits prod.splits)

lemma row_totals_length: "row_totals df ds = Inr totals \<Longrightarrow> length totals = length (rows df)"
  by (auto simp: row_totals_def dest: sequence_length)

lemma row_totals_cong:
  assumes "length (rows t') = length (rows t)" "\<And>d. d \<in> set ds \<Longrightarrow> column t' d = column t d"
  shows "row_totals t' ds = row_totals t ds"
proof -
  have "map (\<lambda>r. nansum (map (cell_at (columns t') r) ds)) (rows t') =
        map (\<lambda>r. nansum (map (cell_at (columns t) r) ds)) (rows t)"
  proof (rule nth_equalityI)
    show "length (map (\<lambda>r. nansum (map (cell_at (columns t') r) ds)) (rows t')) =
          length (map (\<lambda>r. nansum (map (cell_at (columns t) r) ds)) (rows t))"
      using assms(1) by simp
  next
    fix i assume "i < length (map (\<lambda>r. nansum (map (cell_at (columns t') r) ds)) (rows t'))"
    then have i: "i < length (rows t')" "i < length (rows t)" using assms(1) by simp_all
    have "map (cell_at (columns t') (rows t' ! i)) ds = map (cell_at (columns t) (rows t ! i)) ds"
    proof (rule map_cong [OF refl])
      fix d assume "d \<in> set ds"
      then have "column t' d ! i = column t d ! i" using assms(2) by simp
      with i show "cell_at (columns t') (rows t' ! i) d = cell_at (columns t) (rows t ! i) d"
        by (simp add: column_def)
    qed
    then have "nansum (map (cell_at (columns t') (rows t' ! i)) ds) =
        nansum (map (cell_at (columns t) (rows t ! i)) ds)"
      by (rule arg_cong)
    with i show "map (\<lambda>r. nansum (map (cell_at (columns t') r) ds)) (rows t') ! i =
          map (\<lambda>r. nansum (map (cell_at (columns t) r) ds)) (rows t) ! i"
      by simp
  qed
  then show ?thesis by (simp add: row_totals_def)
qed

lemma sequence_map_eq:
  "(\<And>x. x \<in> set xs \<Longrightarrow> f x = Inr (g x)) \<Longrightarrow> sequence (map f xs) = Inr (map g xs)"
  by (induction xs) auto

lemma row_totals_numeric:
  assumes "\<forall>r\<in>set (rows df). \<forall>d\<in>set ds. numeric (cell_at (columns df) r d)"
  shows "row_totals df ds =
           Inr (map (\<lambda>r. Num (\<Sum>d\<leftarrow>ds. num_of (cell_at (columns df) r d))) (rows df))"
  unfolding row_totals_def
proof (rule sequence_map_eq)
  fix r assume "r \<in> set (rows df)"
  with assms have "list_all numeric (map (cell_at (columns df) r) ds)"
    by (simp add: list_all_iff)
  then show "nansum (map (cell_at (columns df) r) ds) =
      Inr (Num (\<Sum>d\<leftarrow>ds. num_of (cell_at (columns df) r d)))"
    by (simp add: nansum_numeric comp_def)
qed

text \<open>
  C1, as amended. \<^verbatim>\<open>compute_combo_chart\<close> writes the derived column onto the table the
  caller passed: when the entity is known, the delay-cause columns exist and their cells
  are numeric, the caller's table has, after the call, the column \<^verbatim>\<open>total_delay\<close>
  (appended if it was absent, overwritten otherwise) holding the row-wise sums. In every
  case the table keeps its rows, and every column other than \<^verbatim>\<open>total_delay\<close> has
  exactly the values it had before; and when \<^verbatim>\<open>total_delay\<close> is not itself a delay-cause
  column, a second call leaves the table as the first call left it, so that a later read
  of the delay-cause columns observes what it would have observed before the calls.
\<close>

theorem compute_combo_chart_frame:
  fixes srt df entity factor eo ds
  assumes "wf_table df"
  defines "df' \<equiv> fst (compute_combo_chart srt df entity factor eo ds)"
  shows "wf_table df' \<and> length (rows df') = length (rows df) \<and>
         (\<forall>c. c \<noteq> ''total_delay'' \<longrightarrow> column df' c = column df c) \<and>
         (''total_delay'' \<notin> set ds \<longrightarrow>
            fst (compute_combo_chart srt df' entity factor eo ds) = df') \<and>
         (eo entity \<noteq> None \<and> set ds \<subseteq> set (columns df) \<and>
          (\<forall>r\<in>set (rows df). \<forall>d\<in>set ds. numeric (cell_at (columns df) r d)) \<longrightarrow>
            columns df' = (if ''total_delay'' \<in> set (columns df) then columns df
                           else columns df @ [''total_delay'']) \<and>
            column df' ''total_delay'' =
              map (\<lambda>r. Num (\<Sum>d\<leftarrow>ds. num_of (cell_at (columns df) r d))) (rows df))"
proof -
  note f = compute_combo_chart_fst
  have "df' = df \<or> (\<exists>totals. row_totals df ds = Inr totals \<and> eo entity \<noteq> None \<and>
        list_all (\<lambda>d. d \<in> set (columns df)) ds \<and> df' = setitem df ''total_delay'' totals)"
    unfolding df'_def f
    by (cases "eo entity"; cases "list_all (\<lambda>d. d \<in> set (columns df)) ds";
        cases "row_totals df ds") auto
  then consider (same) "df' = df"
    | (written) totals where "row_totals df ds = Inr totals" "eo entity \<noteq> None"
        "list_all (\<lambda>d. d \<in> set (columns df)) ds" "df' = setitem df ''total_delay'' totals"
    by blast
  then have main: "wf_table df' \<and> length (rows df') = length (rows df) \<and>
         (\<forall>c. c \<noteq> ''total_delay'' \<longrightarrow> column df' c = column df c) \<and>
         (''total_delay'' \<notin> set ds \<longrightarrow>
            fst (compute_combo_chart srt df' entity factor eo ds) = df')"
  proof cases
    case same
    with assms(1) show ?thesis by (simp add: df'_def)
  next
    case written
    note len = row_totals_length [OF written(1)]
    have wf': "wf_table df'" unfolding written(4) using assms(1) by (rule setitem_wf)
    have rows': "length (rows df') = length (rows df)"
      unfolding written(4) using len by (rule setitem_rows_length)
    have other: "column df' c = column df c" if "c \<noteq> ''total_delay''" for c
      unfolding written(4) using assms(1) len that by (rule setitem_column_other)
    have td: "column df' ''total_delay'' = totals"
      unfolding written(4) using assms(1) len by (rule setitem_column_same)
    have cols': "set (columns df) \<subseteq> set (columns df')" "''total_delay'' \<in> set (columns df')"
      unfolding written(4) by (auto simp: setitem_columns)
    have again: "fst (compute_combo_chart srt df' entity factor eo ds) = df'"
      if nd: "''total_delay'' \<notin> set ds"
    proof -
      have "row_totals df' ds = row_totals df ds"
      proof (rule row_totals_cong [OF rows'])
        fix d assume "d \<in> set ds"
        with nd have "d \<noteq> ''total_delay''" by blast
        then show "column df' d = column df d" by (rule other)
      qed
      moreover have "list_all (\<lambda>d. d \<in> set (columns df')) ds"
        using written(3) cols'(1) by (auto simp: list_all_iff)
      moreover have "setitem df' ''total_delay'' totals = df'"
        using wf' cols'(2) td by (rule setitem_same)
      ultimately show ?thesis
        using written(1,2) by (auto simp: f)
    qed
    from wf' rows' other again show ?thesis by blast
  qed
  have pos: "columns df' = (if ''total_delay'' \<in> set (columns df) then columns df
                           else columns df @ [''total_delay'']) \<and>
            column df' ''total_delay'' =
              map (\<lambda>r. Num (\<Sum>d\<leftarrow>ds. num_of (cell_at (columns df) r d))) (rows df)"
    if e: "eo entity \<noteq> None" and p: "set ds \<subseteq> set (columns df)"
      and n: "\<forall>r\<in>set (rows df). \<forall>d\<in>set ds. numeric (cell_at (columns df) r d)"
  proof -
    let ?tot = "map (\<lambda>r. Num (\<Sum>d\<leftarrow>ds. num_of (cell_at (columns df) r d))) (rows df)"
    have rt: "row_totals df ds = Inr ?tot" using n by (rule row_totals_numeric)
    have la: "list_all (\<lambda>d. d \<in> set (columns df)) ds" using p by (auto simp: list_all_iff)
    have eq: "df' = setitem df ''total_delay'' ?tot"
      unfolding df'_def f using e la rt by auto
    have "column df' ''total_delay'' = ?tot"
      unfolding eq using assms(1) by (intro setitem_column_same) simp_all
    then show ?thesis by (simp add: eq setitem_columns)
  qed
  from main pos show ?thesis by blast
qed

theorem compute_combo_chart_frame_witness:
  "wf_table \<lparr>columns = [''carrier'', ''carrier_name'', ''wd'', ''cd''],
             rows = [[Str ''AA'', Str ''American'', Num 1, Num 2],
                     [Str ''DL'', Str ''Delta'', Num 5, Null]]\<rparr> \<and>
   column (fst (compute_combo_chart stable_argsort
             \<lparr>columns = [''carrier'', ''carrier_name'', ''wd'', ''cd''],
              rows = [[Str ''AA'', Str ''American'', Num 1, Num 2],
                      [Str ''DL'', Str ''Delta'', Num 5, Null]]\<rparr>
             ''Airline'' ''wd'' [''Airline'' \<mapsto> (''carrier_name'', ''carrier'')] [''wd'', ''cd'']))
      ''cd'' = [Num 2, Null] \<and>
   column (fst (compute_combo_chart stable_argsort
             \<lparr>columns = [''carrier'', ''carrier_name'', ''wd'', ''cd''],
              rows = [[Str ''AA'', Str ''American'', Num 1, Num 2],
                      [Str ''DL'', Str ''Delta'', Num 5, Null]]\<rparr>
             ''Airline'' ''wd'' [''Airline'' \<mapsto> (''carrier_name'', ''carrier'')] [''wd'', ''cd'']))
      ''total_delay'' = [Num 3, Num 5]"
proof -
  let ?T = "\<lparr>columns = [''carrier'', ''carrier_name'', ''wd'', ''cd''],
             rows = [[Str ''AA'', Str ''American'', Num 1, Num 2],
                     [Str ''DL'', Str ''Delta'', Num 5, Null]]\<rparr>"
  let ?eo = "[''Airline'' \<mapsto> (''carrier_name'', ''carrier'')]"
  have wf: "wf_table ?T" by (simp add: wf_table_def)
  note th = compute_combo_chart_frame [OF wf, of stable_argsort "''Airline''" "''wd''" ?eo
      "[''wd'', ''cd'']"]
  have cd: "column ?T ''cd'' = [Num 2, Null]"
    by (simp add: column_def cell_at_def nth_cell_def)
  have num: "\<forall>r\<in>set (rows ?T). \<forall>d\<in>set [''wd'', ''cd'']. numeric (cell_at (columns ?T) r d)"
    by (simp add: cell_at_def nth_cell_def numeric_def)
  have tot: "map (\<lambda>r. Num (\<Sum>d\<leftarrow>[''wd'', ''cd'']. num_of (cell_at (columns ?T) r d))) (rows ?T) =
      [Num 3, Num 5]"
    by (simp add: cell_at_def nth_cell_def num_of_def)
  from th have "column (fst (compute_combo_chart stable_argsort ?T ''Airline'' ''wd'' ?eo
      [''wd'', ''cd''])) ''cd'' = column ?T ''cd''"
    by simp
  moreover from th num have "column (fst (compute_combo_chart stable_argsort ?T ''Airline'' ''wd'' ?eo
      [''wd'', ''cd''])) ''total_delay'' =
      map (\<lambda>r. Num (\<Sum>d\<leftarrow>[''wd'', ''cd'']. num_of (cell_at (columns ?T) r d))) (rows ?T)"
    by simp
  ultimately show ?thesis using wf cd tot by simp
qed

theorem compute_combo_chart_mutates_counterexample:
  "fst (compute_combo_chart stable_argsort
          \<lparr>columns = [''carrier'', ''carrier_name'', ''wd'', ''cd''],
           rows = [[Str ''AA'', Str ''American'', Num 1, Num 2]]\<rparr>
          ''Airline'' ''wd'' [''Airline'' \<mapsto> (''carrier_name'', ''carrier'')] [''wd'', ''cd''])
     = \<lparr>columns = [''carrier'', ''carrier_name'', ''wd'', ''cd'', ''total_delay''],
        rows = [[Str ''AA'', Str ''American'', Num 1, Num 2, Num 3]]\<rparr> \<and>
   fst (compute_combo_chart stable_argsort
          \<lparr>columns = [''carrier'', ''carrier_name'', ''wd'', ''cd''],
           rows = [[Str ''AA'', Str ''American'', Num 1, Num 2]]\<rparr>
          ''Airline'' ''wd'' [''Airline'' \<mapsto> (''carrier_name'', ''carrier'')] [''wd'', ''cd''])
     \<noteq> \<lparr>columns = [''carrier'', ''carrier_name'', ''wd'', ''cd''],
         rows = [[Str ''AA'', Str ''American'', Num 1, Num 2]]\<rparr>"
  by code_simp

subsection \<open>Absent columns\<close>

lemma py_add_error: "py_add a b = Inl e \<Longrightarrow> e = TypeError"
  by (cases "(a, b)" rule: py_add.cases) auto

lemma reduce_add_error: "reduce_add a xs = Inl e \<Longrightarrow> e = TypeError"
  by (induction xs arbitrary: a) (auto split: sum.splits dest: py_add_error)

lemma nansum_error: "nansum xs = Inl e \<Longrightarrow> e = TypeError"
  by (auto simp: nansum_def split: list.splits dest: reduce_add_error)

lemma sequence_error:
  "sequence xs = Inl e \<Longrightarrow> \<exists>x\<in>set xs. x = Inl e"
  by (induction xs) (auto split: sum.splits)

lemma row_totals_error: "row_totals df ds = Inl e \<Longrightarrow> e = TypeError"
  by (auto simp: row_totals_def dest!: sequence_error dest: nansum_error [OF sym])

lemma compute_combo_chart_snd:
  assumes "eo entity = Some (name_col, code_col)"
  shows "snd (compute_combo_chart srt df entity factor eo ds) =
     (if list_all (\<lambda>d. d \<in> set (columns df)) ds
      then (case row_totals df ds of
              Inl e \<Rightarrow> Inl e
            | Inr totals \<Rightarrow>
                (case grouped_by_entity (setitem df ''total_delay'' totals) code_col name_col of
                   Inl e \<Rightarrow> Inl e
                 | Inr grouped \<Rightarrow>
                     (case sort_values_desc srt grouped ''total_delay'' of
                        Inl e \<Rightarrow> Inl e
                      | Inr ranked \<Rightarrow> Inr (head 10 ranked))))
      else Inl (KeyError (filter (\<lambda>d. d \<notin> set (columns df)) ds)))"
  using assms
  by (simp add: compute_combo_chart_def select_columns_def row_totals_def Let_def comp_def
      split: option.splits sum.splits prod.splits)

lemma get_grouper_missing_key:
  assumes "k \<in> set ks" "k \<notin> set (columns t)" "length ks \<noteq> length (rows t)"
  shows "\<exists>k'. get_grouper t ks = Inl (KeyError [k']) \<and> k' \<in> set ks \<and> k' \<notin> set (columns t)"
proof -
  from assms have "filter (\<lambda>k. k \<notin> set (columns t)) ks \<noteq> []"
    by (auto simp: filter_empty_conv)
  then obtain k' rest where f: "filter (\<lambda>k. k \<notin> set (columns t)) ks = k' # rest"
    by (cases "filter (\<lambda>k. k \<notin> set (columns t)) ks") auto
  then have "k' \<in> set (filter (\<lambda>k. k \<notin> set (columns t)) ks)" by simp
  then have "k' \<in> set ks" "k' \<notin> set (columns t)" by auto
  with f assms(3) show ?thesis by (auto simp: get_grouper_def)
qed

text \<open>
  C5, as amended. Let the entity be known. If a delay-cause column is absent, the call
  fails with a \<^verbatim>\<open>KeyError\<close> (the spec's MissingColumnError) that names exactly the absent
  delay-cause columns, and the table is left untouched. If an entity-key column other
  than \<^verbatim>\<open>total_delay\<close> is absent and the table does not have exactly two rows, the call
  fails as well and returns no table: with a \<^verbatim>\<open>KeyError\<close> naming an absent key column
  when the delay-cause columns are present and numeric, or else with the \<^verbatim>\<open>TypeError\<close> of
  the row-wise sum. On a table of exactly two rows \<^verbatim>\<open>groupby\<close> takes a list of two labels
  of which one is no column as the keys of the two rows, and raises nothing. An entity-key
  column named \<^verbatim>\<open>total_delay\<close> is never reported absent: the function creates it before
  it groups.
\<close>

theorem compute_combo_chart_missing_column:
  assumes "eo entity = Some (name_col, code_col)"
    and "(\<exists>d\<in>set ds. d \<notin> set (columns df)) \<or>
         (length (rows df) \<noteq> 2 \<and>
          (\<exists>k\<in>{code_col, name_col}. k \<notin> set (columns df) \<and> k \<noteq> ''total_delay''))"
  shows "(\<exists>e. snd (compute_combo_chart srt df entity factor eo ds) = Inl e \<and>
            (e = TypeError \<or>
             (\<exists>names. e = KeyError names \<and> names \<noteq> [] \<and>
                set names \<subseteq> (set ds \<union> {code_col, name_col}) - set (columns df)))) \<and>
         ((\<exists>d\<in>set ds. d \<notin> set (columns df)) \<longrightarrow>
            compute_combo_chart srt df entity factor eo ds =
              (df, Inl (KeyError (filter (\<lambda>d. d \<notin> set (columns df)) ds)))) \<and>
         (set ds \<subseteq> set (columns df) \<and>
          (\<forall>r\<in>set (rows df). \<forall>d\<in>set ds. numeric (cell_at (columns df) r d)) \<longrightarrow>
            (\<exists>k. snd (compute_combo_chart srt df entity factor eo ds) = Inl (KeyError [k]) \<and>
                 k \<in> {code_col, name_col} \<and> k \<notin> set (columns df)))"
proof -
  let ?R = "compute_combo_chart srt df entity factor eo ds"
  note s = compute_combo_chart_snd [where eo = eo and entity = entity and srt = srt and df = df
      and factor = factor and ds = ds, OF assms(1)]
  have missing: "?R = (df, Inl (KeyError (filter (\<lambda>d. d \<notin> set (columns df)) ds)))"
    if "\<exists>d\<in>set ds. d \<notin> set (columns df)"
  proof -
    from that have "\<not> list_all (\<lambda>d. d \<in> set (columns df)) ds" by (auto simp: list_all_iff)
    with assms(1) show ?thesis
      by (simp add: compute_combo_chart_def select_columns_def)
  qed
  have key: "\<exists>k. snd ?R = Inl (KeyError [k]) \<and> k \<in> {code_col, name_col} \<and> k \<notin> set (columns df)"
    if p: "set ds \<subseteq> set (columns df)" and t: "row_totals df ds = Inr totals" for totals
  proof -
    from p assms(2) obtain k where k: "k \<in> {code_col, name_col}" "k \<notin> set (columns df)"
      "k \<noteq> ''total_delay''" and two: "length (rows df) \<noteq> 2" by blast
    let ?df' = "setitem df ''total_delay'' totals"
    have sub: "set (columns ?df') \<subseteq> insert ''total_delay'' (set (columns df))"
      "set (columns df) \<subseteq> set (columns ?df')"
      by (auto simp: setitem_columns)
    have "length (rows ?df') = length (rows df)"
      using row_totals_length [OF t] by (rule setitem_rows_length)
    with two have len: "length [code_col, name_col] \<noteq> length (rows ?df')" by simp
    from sub k have "k \<in> set [code_col, name_col]" "k \<notin> set (columns ?df')" by auto
    from get_grouper_missing_key [OF this len]
    obtain k' where k': "get_grouper ?df' [code_col, name_col] = Inl (KeyError [k'])"
        "k' \<in> set [code_col, name_col]" "k' \<notin> set (columns ?df')"
      by blast
    from p have "list_all (\<lambda>d. d \<in> set (columns df)) ds" by (auto simp: list_all_iff)
    with t k'(1) have "snd ?R = Inl (KeyError [k'])"
      by (simp add: s grouped_by_entity_def)
    with k'(2,3) sub(2) show ?thesis by auto
  qed
  have first: "\<exists>e. snd ?R = Inl e \<and>
            (e = TypeError \<or>
             (\<exists>names. e = KeyError names \<and> names \<noteq> [] \<and>
                set names \<subseteq> (set ds \<union> {code_col, name_col}) - set (columns df)))"
  proof (cases "\<exists>d\<in>set ds. d \<notin> set (columns df)")
    case True
    then have "filter (\<lambda>d. d \<notin> set (columns df)) ds \<noteq> []" by (auto simp: filter_empty_conv)
    with missing [OF True] show ?thesis by auto
  next
    case False
    then have p: "set ds \<subseteq> set (columns df)" by auto
    then have la: "list_all (\<lambda>d. d \<in> set (columns df)) ds" by (auto simp: list_all_iff)
    show ?thesis
    proof (cases "row_totals df ds")
      case (Inl e)
      then have "e = TypeError" by (rule row_totals_error)
      with Inl la show ?thesis by (simp add: s)
    next
      case (Inr totals)
      from key [OF p Inr] show ?thesis by auto
    qed
  qed
  have third: "\<exists>k. snd ?R = Inl (KeyError [k]) \<and> k \<in> {code_col, name_col} \<and> k \<notin> set (columns df)"
    if p: "set ds \<subseteq> set (columns df)"
      and n: "\<forall>r\<in>set (rows df). \<forall>d\<in>set ds. numeric (cell_at (columns df) r d)"
    using key [OF p row_totals_numeric [OF n]] .
  from first missing third show ?thesis by blast
qed


theorem compute_combo_chart_missing_column_witness:
  "compute_combo_chart nargsort_desc
     \<lparr>columns = [''carrier'', ''carrier_name'', ''wd'', ''cd''],
             rows = [[Str ''AA'', Str ''American'', Num 1, Num 2],
                     [Str ''DL'', Str ''Delta'', Num 5, Num 0],
                     [Str ''AA'', Str ''American'', Num 4, Null]]\<rparr>
     ''Airline'' ''wd'' [''Airline'' \<mapsto> (''carrier_name'', ''carrier'')] [''wd'', ''weather'', ''nas'']
   = (\<lparr>columns = [''carrier'', ''carrier_name'', ''wd'', ''cd''],
             rows = [[Str ''AA'', Str ''American'', Num 1, Num 2],
                     [Str ''DL'', Str ''Delta'', Num 5, Num 0],
                     [Str ''AA'', Str ''American'', Num 4, Null]]\<rparr>,
      Inl (KeyError [''weather'', ''nas''])) \<and>
   (\<exists>k. snd (compute_combo_chart nargsort_desc
             \<lparr>columns = [''carrier'', ''wd'', ''cd''],
             rows = [[Str ''AA'', Num 1, Num 2], [Str ''DL'', Num 5, Num 0],
                     [Str ''AA'', Num 4, Null]]\<rparr>
             ''Airline'' ''wd'' [''Airline'' \<mapsto> (''carrier_name'', ''carrier'')] [''wd'', ''cd''])
          = Inl (KeyError [k]) \<and> k = ''carrier_name'')"
proof -
  let ?eo = "[''Airline'' \<mapsto> (''carrier_name'', ''carrier'')]"
  let ?A = "\<lparr>columns = [''carrier'', ''carrier_name'', ''wd'', ''cd''],
             rows = [[Str ''AA'', Str ''American'', Num 1, Num 2],
                     [Str ''DL'', Str ''Delta'', Num 5, Num 0],
                     [Str ''AA'', Str ''American'', Num 4, Null]]\<rparr>"
  let ?B = "\<lparr>columns = [''carrier'', ''wd'', ''cd''],
             rows = [[Str ''AA'', Num 1, Num 2], [Str ''DL'', Num 5, Num 0],
                     [Str ''AA'', Num 4, Null]]\<rparr>"
  have a: "compute_combo_chart nargsort_desc ?A ''Airline'' ''wd'' ?eo [''wd'', ''weather'', ''nas'']
      = (?A, Inl (KeyError [''weather'', ''nas'']))"
    using compute_combo_chart_missing_column [where eo = ?eo and entity = "''Airline''"
        and name_col = "''carrier_name''" and code_col = "''carrier''" and df = ?A
        and ds = "[''wd'', ''weather'', ''nas'']" and srt = nargsort_desc and factor = "''wd''"]
    by simp
  have b: "\<exists>k. snd (compute_combo_chart nargsort_desc ?B ''Airline'' ''wd'' ?eo [''wd'', ''cd''])
      = Inl (KeyError [k]) \<and> k = ''carrier_name''"
    using compute_combo_chart_missing_column [where eo = ?eo and entity = "''Airline''"
        and name_col = "''carrier_name''" and code_col = "''carrier''" and df = ?B
        and ds = "[''wd'', ''cd'']" and srt = nargsort_desc and factor = "''wd''"]
    by (auto simp add: cell_at_def nth_cell_def numeric_def)
  from a b show ?thesis by blast
qed

theorem compute_combo_chart_absent_key_counterexample:
  "''carrier_name'' \<notin> set (columns \<lparr>columns = [''carrier'', ''wd'', ''cd''],
                                    rows = [[Str ''AA'', Num 1, Num 2],
                                            [Str ''DL'', Num 5, Num 0]]\<rparr>) \<and>
   snd (compute_combo_chart nargsort_desc
          \<lparr>columns = [''carrier'', ''wd'', ''cd''],
           rows = [[Str ''AA'', Num 1, Num 2], [Str ''DL'', Num 5, Num 0]]\<rparr>
          ''Airline'' ''wd'' [''Airline'' \<mapsto> (''carrier_name'', ''carrier'')] [''wd'', ''cd''])
     = Inr \<lparr>columns = [''index'', ''carrier'', ''wd'', ''cd'', ''total_delay''],
            rows = [[Str ''carrier_name'', Str ''DL'', Num 5, Num 0, Num 5],
                    [Str ''carrier'', Str ''AA'', Num 1, Num 2, Num 3]]\<rparr> \<and>
   ''total_delay'' \<notin> set (columns \<lparr>columns = [''carrier'', ''carrier_name'', ''wd'', ''cd''],
                                   rows = [[Str ''AA'', Str ''American'', Num 1, Num 2]]\<rparr>) \<and>
   snd (compute_combo_chart nargsort_desc
          \<lparr>columns = [''carrier'', ''carrier_name'', ''wd'', ''cd''],
           rows = [[Str ''AA'', Str ''American'', Num 1, Num 2]]\<rparr>
          ''Airline'' ''wd'' [''Airline'' \<mapsto> (''carrier_name'', ''total_delay'')] [''wd'', ''cd''])
     = Inr \<lparr>columns = [''total_delay'', ''carrier_name'', ''carrier'', ''wd'', ''cd''],
            rows = [[Num 3, Str ''American'', Str ''AA'', Num 1, Num 2]]\<rparr>"
  by code_simp

subsection \<open>The ranking\<close>

lemma length_insort_by: "length (insort_by le x xs) = Suc (length xs)"
  by (induction xs) auto

lemma length_sort_by: "length (sort_by le xs) = length xs"
  by (induction xs) (auto simp: sort_by_def length_insort_by)

lemma set_insort_by: "set (insort_by le x xs) = insert x (set xs)"
  by (induction xs) auto

lemma set_sort_by: "set (sort_by le xs) = set xs"
  by (induction xs) (auto simp: sort_by_def set_insort_by)

lemma length_group_keys:
  "length (group_keys rk) = length (filter (\<lambda>k. Null \<notin> set k) (remdups rk))"
  by (simp add: group_keys_def length_sort_by remdups_filter)

lemma map2_pair_list:
  "map2 (\<lambda>a b. [a, b]) (map f rs) (map g rs) = map (\<lambda>r. [f r, g r]) rs"
  by (induction rs) auto

lemma row_keys_columns:
  "map (row_key (columns t) [c, n]) (rows t) = map2 (\<lambda>a b. [a, b]) (column t c) (column t n)"
  by (simp add: row_key_def column_def map2_pair_list)

lemma group_keys_length:
  assumes "column t' c = column t c" "column t' n = column t n"
  shows "length (group_keys (grouper_keys t' (Columns [c, n]))) =
         length (complete_entity_keys t c n)"
proof -
  have "map (row_key (columns t') [c, n]) (rows t') = map (row_key (columns t) [c, n]) (rows t)"
    by (simp only: row_keys_columns assms)
  moreover have "map (row_key (columns t) [c, n]) (rows t) =
      map (\<lambda>r. [cell_at (columns t) r c, cell_at (columns t) r n]) (rows t)"
    by (simp add: row_key_def)
  ultimately show ?thesis
    by (simp add: length_group_keys complete_entity_keys_def distinct_entity_keys_def)
qed

lemma complete_le_distinct:
  "length (complete_entity_keys t c n) \<le> length (distinct_entity_keys t c n)"
  by (simp add: complete_entity_keys_def)

lemma get_grouper_columns:
  assumes "set ks \<subseteq> set (columns t)"
  shows "get_grouper t ks = Inr (Columns ks)"
proof -
  from assms have "filter (\<lambda>k. k \<notin> set (columns t)) ks = []"
    by (auto simp: filter_empty_conv)
  moreover from assms have "list_all (\<lambda>k. k \<in> set (columns t)) ks"
    by (auto simp: list_all_iff)
  ultimately show ?thesis by (simp add: get_grouper_def)
qed

lemma grouped_sum_Inr:
  assumes "grouped_sum t gr vs = Inr g"
  shows "length (groups g) = length (group_keys (grouper_keys t gr)) \<and>
         index_names g = grouper_names gr \<and> value_columns g = vs"
  using assms by (auto simp: grouped_sum_def split: sum.splits dest: sequence_length)

lemma reset_index_Inr:
  "reset_index g = Inr t \<Longrightarrow> rows t = map (\<lambda>(k, vs). k @ vs) (groups g)"
  by (auto simp: reset_index_def split: sum.splits if_splits)

lemma grouped_by_entity_Inr:
  assumes "grouped_by_entity t c n = Inr grouped" "c \<in> set (columns t)" "n \<in> set (columns t)"
  shows "length (rows grouped) = length (group_keys (grouper_keys t (Columns [c, n])))"
proof -
  have gg: "get_grouper t [c, n] = Inr (Columns [c, n])"
    using assms(2,3) by (simp add: get_grouper_columns)
  with assms(1) obtain g where g: "grouped_sum t (Columns [c, n])
      (filter (\<lambda>x. x \<notin> set (exclusions (Columns [c, n]))) (columns t)) = Inr g"
      "reset_index g = Inr grouped"
    by (auto simp: grouped_by_entity_def split: sum.splits)
  from reset_index_Inr [OF g(2)] grouped_sum_Inr [OF g(1)] show ?thesis by simp
qed

lemma mset_upt_length: "mset p = mset [0..<n] \<Longrightarrow> length p = n"
  by (metis length_upt minus_nat.diff_0 size_mset)

lemma sort_values_desc_Inr:
  assumes "sort_values_desc srt t c = Inr ranked"
  shows "\<exists>p. srt (column t c) = Inr p \<and> c \<in> set (columns t) \<and>
             ranked = t\<lparr>rows := map (\<lambda>i. rows t ! i) p\<rparr>"
  using assms by (auto simp: sort_values_desc_def getitem_def split: sum.splits if_splits)

lemma reduce_add_nums:
  "list_all is_num ys \<Longrightarrow> reduce_add (Num a) ys = Inr (Num (a + sum_list (map num_of ys)))"
  by (induction ys arbitrary: a) (auto simp: is_num_def num_of_def split: cell.splits)

lemma reduce_add_texts:
  "list_all (\<lambda>x. \<not> is_num x \<and> x \<noteq> Null) ys \<Longrightarrow> \<exists>s. reduce_add (Str a) ys = Inr (Str s)"
  by (induction ys arbitrary: a) (auto simp: is_num_def split: cell.splits)

lemma sum_list_num_of_filter:
  "sum_list (map num_of (filter (\<lambda>x. x \<noteq> Null) xs)) = sum_list (map num_of xs)"
  by (induction xs) (auto simp: num_of_def)

lemma group_sum_numeric:
  assumes "list_all numeric xs"
  shows "group_sum xs = Inr (Num (sum_list (map num_of xs)))"
proof (cases "filter (\<lambda>x. x \<noteq> Null) xs")
  case Nil
  with sum_list_num_of_filter [of xs] show ?thesis by (simp add: group_sum_def)
next
  case (Cons y ys)
  have "list_all is_num (filter (\<lambda>x. x \<noteq> Null) xs)"
    using assms by (auto simp: list_all_iff numeric_def is_num_def split: cell.splits)
  with Cons obtain q where y: "y = Num q" and ys: "list_all is_num ys"
    by (cases y) (auto simp: is_num_def)
  from reduce_add_nums [OF ys, of q] Cons y sum_list_num_of_filter [of xs]
  show ?thesis by (simp add: group_sum_def num_of_def)
qed

lemma group_sum_text:
  assumes "list_all (\<lambda>x. \<not> is_num x) xs"
  shows "\<exists>v. group_sum xs = Inr v"
proof (cases "filter (\<lambda>x. x \<noteq> Null) xs")
  case Nil
  then show ?thesis by (simp add: group_sum_def)
next
  case (Cons y ys)
  have "list_all (\<lambda>x. \<not> is_num x \<and> x \<noteq> Null) (filter (\<lambda>x. x \<noteq> Null) xs)"
    using assms by (auto simp: list_all_iff)
  with Cons obtain a where y: "y = Str a" and ys: "list_all (\<lambda>x. \<not> is_num x \<and> x \<noteq> Null) ys"
    by (cases y) (auto simp: is_num_def)
  from reduce_add_texts [OF ys, of a] Cons y show ?thesis by (auto simp: group_sum_def)
qed

lemma group_sum_summable:
  assumes "summable xs"
  shows "\<exists>v. group_sum xs = Inr v \<and> (list_all numeric xs \<longrightarrow> is_num v)"
proof (cases "list_all numeric xs")
  case True
  then show ?thesis by (simp add: group_sum_numeric is_num_def)
next
  case False
  with assms have "list_all (\<lambda>x. \<not> is_num x) xs" by (simp add: summable_def)
  from group_sum_text [OF this] False show ?thesis by auto
qed

lemma group_rows_subset: "set (group_rows rk rs k) \<subseteq> set rs"
  by (auto simp: group_rows_def dest: set_zip_rightD)

lemma summable_subset:
  "set ys \<subseteq> set xs \<Longrightarrow> summable (map f xs) \<Longrightarrow> summable (map f ys)"
  by (auto simp: summable_def list_all_iff)

lemma sequence_map_list_all2:
  assumes "\<And>x. x \<in> set xs \<Longrightarrow> \<exists>y. f x = Inr y \<and> Q x y"
  shows "\<exists>ys. sequence (map f xs) = Inr ys \<and> list_all2 Q xs ys"
  using assms
proof (induction xs)
  case Nil
  then show ?case by simp
next
  case (Cons x xs)
  then obtain y where y: "f x = Inr y" "Q x y" by auto
  from Cons obtain ys where "sequence (map f xs) = Inr ys" "list_all2 Q xs ys" by auto
  with y show ?case by simp
qed

lemma sum_group_summable:
  assumes "\<And>v. v \<in> set vs \<Longrightarrow> summable (column t v)"
  shows "\<exists>vals. sum_group t rk vs k = Inr (k, vals) \<and>
           list_all2 (\<lambda>v x. list_all numeric (column t v) \<longrightarrow> is_num x) vs vals"
proof -
  let ?rs = "group_rows rk (rows t) k"
  let ?f = "\<lambda>v. group_sum (map (\<lambda>r. cell_at (columns t) r v) ?rs)"
  have "\<exists>y. ?f v = Inr y \<and> (list_all numeric (column t v) \<longrightarrow> is_num y)" if "v \<in> set vs" for v
  proof -
    from assms [OF that] have "summable (map (\<lambda>r. cell_at (columns t) r v) ?rs)"
      unfolding column_def by (rule summable_subset [OF group_rows_subset])
    from group_sum_summable [OF this] obtain y where y: "?f v = Inr y"
      "list_all numeric (map (\<lambda>r. cell_at (columns t) r v) ?rs) \<longrightarrow> is_num y"
      by blast
    moreover have "list_all numeric (column t v) \<longrightarrow>
        list_all numeric (map (\<lambda>r. cell_at (columns t) r v) ?rs)"
      using group_rows_subset [of rk "rows t" k] by (auto simp: column_def list_all_iff)
    ultimately show ?thesis by blast
  qed
  from sequence_map_list_all2 [of vs ?f, OF this]
  show ?thesis by (auto simp: sum_group_def)
qed

lemma group_keys_key_length:
  "k \<in> set (group_keys (grouper_keys t (Columns ks))) \<Longrightarrow> length k = length ks"
  by (auto simp: group_keys_def set_sort_by row_key_def)

lemma list_all2_right:
  assumes "list_all2 Q xs ys" "y \<in> set ys"
  shows "\<exists>x\<in>set xs. Q x y"
  using assms by (induction rule: list_all2_induct) auto

lemma grouped_sum_summable:
  assumes "\<And>v. v \<in> set vs \<Longrightarrow> summable (column t v)"
  shows "\<exists>g. grouped_sum t (Columns ks) vs = Inr g \<and> index_names g = map Some ks \<and>
           value_columns g = vs \<and>
           (\<forall>(k, vals)\<in>set (groups g). length k = length ks \<and>
              list_all2 (\<lambda>v x. list_all numeric (column t v) \<longrightarrow> is_num x) vs vals)"
proof -
  let ?rk = "grouper_keys t (Columns ks)"
  let ?Q = "\<lambda>k y. fst y = k \<and>
      list_all2 (\<lambda>v x. list_all numeric (column t v) \<longrightarrow> is_num x) vs (snd y)"
  have "\<exists>y. sum_group t ?rk vs k = Inr y \<and> ?Q k y" for k
    using sum_group_summable [of vs t ?rk k, OF assms] by auto
  from sequence_map_list_all2 [of "group_keys ?rk" "sum_group t ?rk vs" ?Q, OF this]
  obtain gs where gs: "sequence (map (sum_group t ?rk vs) (group_keys ?rk)) = Inr gs"
    "list_all2 ?Q (group_keys ?rk) gs" by blast
  have "length k = length ks \<and>
      list_all2 (\<lambda>v x. list_all numeric (column t v) \<longrightarrow> is_num x) vs vals"
    if "(k, vals) \<in> set gs" for k vals
    using list_all2_right [OF gs(2) that] group_keys_key_length [of _ t ks] by auto
  then show ?thesis using gs(1) by (auto simp: grouped_sum_def)
qed

lemma col_pos_append_right:
  "c \<notin> set xs \<Longrightarrow> col_pos (xs @ ys) c = map_option (\<lambda>j. length xs + j) (col_pos ys c)"
  by (induction xs) (auto simp: option.map_comp comp_def option.map_ident cong: option.map_cong)

lemma cell_at_append_value:
  assumes "c \<notin> set ks" "length k = length ks" "col_pos vs c = Some j" "j < length vals"
  shows "cell_at (ks @ vs) (k @ vals) c = vals ! j"
  using assms by (simp add: cell_at_def col_pos_append_right nth_cell_def nth_append)

lemma grouped_by_entity_summable:
  assumes "c \<in> set (columns t)" "n \<in> set (columns t)" "c \<noteq> n"
    and sm: "\<And>v. v \<in> set (columns t) \<Longrightarrow> v \<noteq> c \<Longrightarrow> v \<noteq> n \<Longrightarrow> summable (column t v)"
    and td: "td \<in> set (columns t)" "td \<noteq> c" "td \<noteq> n" "list_all numeric (column t td)"
  shows "\<exists>grouped. grouped_by_entity t c n = Inr grouped \<and> td \<in> set (columns grouped) \<and>
           list_all is_num (column grouped td)"
proof -
  let ?vs = "filter (\<lambda>x. x \<notin> set (exclusions (Columns [c, n]))) (columns t)"
  have gg: "get_grouper t [c, n] = Inr (Columns [c, n])"
    using assms(1,2) by (simp add: get_grouper_columns)
  have "summable (column t v)" if "v \<in> set ?vs" for v using that sm by auto
  then obtain g where g: "grouped_sum t (Columns [c, n]) ?vs = Inr g"
    "index_names g = map Some [c, n]" "value_columns g = ?vs"
    "\<forall>(k, vals)\<in>set (groups g). length k = length [c, n] \<and>
        list_all2 (\<lambda>v x. list_all numeric (column t v) \<longrightarrow> is_num x) ?vs vals"
    using grouped_sum_summable [of ?vs t "[c, n]"] by blast
  let ?grouped = "\<lparr>columns = [c, n] @ ?vs, rows = map (\<lambda>(k, vs). k @ vs) (groups g)\<rparr>"
  have r: "reset_index g = Inr ?grouped"
    using g(2,3) assms(3) by (simp add: reset_index_def level_names_def)
  have tdv: "td \<in> set ?vs" using td by simp
  then obtain j where j: "col_pos ?vs td = Some j"
    using col_pos_None [of ?vs td] by (cases "col_pos ?vs td") auto
  then have j': "j < length ?vs" "?vs ! j = td" using col_pos_Some by blast+
  have "is_num (cell_at ([c, n] @ ?vs) (k @ vals) td)" if "(k, vals) \<in> set (groups g)" for k vals
  proof -
    from g(4) that have len: "length k = length [c, n]"
      and l2: "list_all2 (\<lambda>v x. list_all numeric (column t v) \<longrightarrow> is_num x) ?vs vals"
      by auto
    from l2 j' have "j < length vals" by (simp add: list_all2_lengthD)
    moreover from l2 j' td(4) have "is_num (vals ! j)"
      by (auto simp: list_all2_conv_all_nth)
    moreover have "td \<notin> set [c, n]" using td by simp
    ultimately show ?thesis using cell_at_append_value [OF _ len j] by simp
  qed
  then have "list_all is_num (column ?grouped td)"
    by (auto simp: column_def list_all_iff)
  with gg g(1) r tdv show ?thesis by (auto simp: grouped_by_entity_def)
qed

lemma stable_argsort_perm: "argsort_perm stable_argsort"
  by (auto simp: argsort_perm_def stable_argsort_def split: if_splits)

lemma sorted_wrt_neg:
  "sorted (map (\<lambda>i. - f i) p) = sorted_wrt (\<ge>) (map (f :: nat \<Rightarrow> rat) p)"
  by (simp add: sorted_wrt_map)

lemma stable_argsort_desc: "argsort_desc stable_argsort"
  unfolding argsort_desc_def stable_argsort_def
  using sorted_sort_key [of "\<lambda>i. - key_num ks i" for ks]
  by (auto simp: sorted_wrt_neg)

lemma mset_map_nth:
  assumes "mset p = mset [0..<length xs]"
  shows "mset (map (\<lambda>i. xs ! i) p) = mset xs"
proof -
  have "mset (map (\<lambda>i. xs ! i) p) = image_mset (\<lambda>i. xs ! i) (mset p)" by simp
  also have "\<dots> = mset (map (\<lambda>i. xs ! i) [0..<length xs])" unfolding assms by simp
  also have "\<dots> = mset xs" by (simp add: map_nth)
  finally show ?thesis .
qed

lemma perm_bounds:
  assumes "mset p = mset [0..<n]" "i \<in> set p"
  shows "i < n"
proof -
  from assms(2) have "i \<in># mset p" by simp
  then have "i \<in> set [0..<n]" unfolding assms(1) by simp
  then show ?thesis by simp
qed

lemma column_reorder:
  assumes "mset p = mset [0..<length (rows t)]"
  shows "map num_of (column (t\<lparr>rows := map (\<lambda>i. rows t ! i) p\<rparr>) c) = map (key_num (column t c)) p"
proof -
  have "num_of (cell_at (columns t) (rows t ! i) c) = key_num (column t c) i" if "i \<in> set p" for i
    using perm_bounds [OF assms that] by (simp add: column_def key_num_def num_of_def)
  then show ?thesis by (simp add: column_def comp_def)
qed

lemma compute_combo_chart_ranked:
  assumes rk: "rankable df code_col name_col ds"
    and eo: "eo entity = Some (name_col, code_col)"
    and srt: "argsort_desc srt"
  shows "\<exists>grouped p.
           grouped_by_entity (fst (compute_combo_chart srt df entity factor eo ds)) code_col name_col
             = Inr grouped \<and>
           list_all is_num (column grouped ''total_delay'') \<and>
           srt (column grouped ''total_delay'') = Inr p \<and>
           sorted_wrt (\<ge>) (map (key_num (column grouped ''total_delay'')) p) \<and>
           snd (compute_combo_chart srt df entity factor eo ds) =
             Inr (head 10 (grouped\<lparr>rows := map (\<lambda>i. rows grouped ! i) p\<rparr>))"
proof -
  let ?td = "''total_delay''"
  let ?tot = "map (\<lambda>r. Num (\<Sum>d\<leftarrow>ds. num_of (cell_at (columns df) r d))) (rows df)"
  let ?df' = "setitem df ?td ?tot"
  from rk have wf: "wf_table df" and ne: "code_col \<noteq> name_col"
    and keys: "code_col \<in> set (columns df)" "name_col \<in> set (columns df)"
    and ktd: "code_col \<noteq> ?td" "name_col \<noteq> ?td"
    and p: "set ds \<subseteq> set (columns df)"
    and n: "\<forall>r\<in>set (rows df). \<forall>d\<in>set ds. numeric (cell_at (columns df) r d)"
    and sm: "\<forall>v\<in>set (columns df). v \<notin> {code_col, name_col, ?td} \<longrightarrow> summable (column df v)"
    by (simp_all add: rankable_def)
  have rt: "row_totals df ds = Inr ?tot" using n by (rule row_totals_numeric)
  have la: "list_all (\<lambda>d. d \<in> set (columns df)) ds" using p by (auto simp: list_all_iff)
  have f: "fst (compute_combo_chart srt df entity factor eo ds) = ?df'"
    using eo la rt by (simp add: compute_combo_chart_fst)
  have len: "length ?tot = length (rows df)" by simp
  have td: "column ?df' ?td = ?tot" using wf len by (rule setitem_column_same)
  have other: "column ?df' v = column df v" if "v \<noteq> ?td" for v
    using wf len that by (rule setitem_column_other)
  have cols: "set (columns ?df') = insert ?td (set (columns df))"
    by (auto simp: setitem_columns)
  have tdn: "list_all numeric (column ?df' ?td)"
    unfolding td by (simp add: list_all_iff numeric_def)
  have "summable (column ?df' v)"
    if "v \<in> set (columns ?df')" "v \<noteq> code_col" "v \<noteq> name_col" for v
  proof (cases "v = ?td")
    case True
    with tdn show ?thesis by (simp add: summable_def)
  next
    case False
    with that cols sm have "summable (column df v)" by auto
    with other [OF False] show ?thesis by simp
  qed
  moreover have "code_col \<in> set (columns ?df')" "name_col \<in> set (columns ?df')"
    "?td \<in> set (columns ?df')"
    using keys cols by auto
  ultimately obtain grouped where g: "grouped_by_entity ?df' code_col name_col = Inr grouped"
    "?td \<in> set (columns grouped)" "list_all is_num (column grouped ?td)"
    using grouped_by_entity_summable [of code_col ?df' name_col ?td] ne ktd tdn
    by (metis (no_types, lifting))
  from srt g(3) obtain p where p: "srt (column grouped ?td) = Inr p"
    "sorted_wrt (\<ge>) (map (key_num (column grouped ?td)) p)"
    by (auto simp: argsort_desc_def)
  have "snd (compute_combo_chart srt df entity factor eo ds) =
      Inr (head 10 (grouped\<lparr>rows := map (\<lambda>i. rows grouped ! i) p\<rparr>))"
    using la rt g(1,2) p(1)
    by (simp add: compute_combo_chart_snd [where eo = eo and entity = entity, OF eo]
        sort_values_desc_def getitem_def)
  with g p f show ?thesis by auto
qed

text \<open>
  C3, as amended. Let the entity be known and its two key columns be columns of the table
  other than \<^verbatim>\<open>total_delay\<close>. Whenever the function returns a table, that table has
  exactly the smaller of 10 and the number of distinct entity keys \<^emph>\<open>in which no part is
  missing\<close> as its number of rows: a row whose code or name is missing enters no group
  (\<^verbatim>\<open>groupby\<close> drops it), and the source keeps the first 10 rows (it has no other top-N).
  So there are never more rows than distinct entity keys, nor more than 10. On a table that
  the ranking accepts the function does return a table, and a table without rows gives a
  result without rows.
\<close>

theorem compute_combo_chart_row_count:
  assumes wf: "wf_table df"
    and eo: "eo entity = Some (name_col, code_col)"
    and keys: "code_col \<in> set (columns df)" "name_col \<in> set (columns df)"
    and ktd: "code_col \<noteq> ''total_delay''" "name_col \<noteq> ''total_delay''"
    and perm: "argsort_perm srt"
  shows "(\<forall>top10. snd (compute_combo_chart srt df entity factor eo ds) = Inr top10 \<longrightarrow>
            length (rows top10) = min 10 (length (complete_entity_keys df code_col name_col)) \<and>
            length (rows top10) \<le> length (distinct_entity_keys df code_col name_col)) \<and>
         (rankable df code_col name_col ds \<and> argsort_desc srt \<longrightarrow>
            (\<exists>top10. snd (compute_combo_chart srt df entity factor eo ds) = Inr top10 \<and>
                     (rows df = [] \<longrightarrow> rows top10 = [])))"
proof -
  let ?R = "compute_combo_chart srt df entity factor eo ds"
  let ?td = "''total_delay''"
  note s = compute_combo_chart_snd [where eo = eo and entity = entity and srt = srt and df = df
      and factor = factor and ds = ds, OF eo]
  have count: "length (rows top10) = min 10 (length (complete_entity_keys df code_col name_col))"
    if r: "snd ?R = Inr top10" for top10
  proof -
    from r obtain totals grouped ranked where
      t: "row_totals df ds = Inr totals"
      and g: "grouped_by_entity (setitem df ?td totals) code_col name_col = Inr grouped"
      and k: "sort_values_desc srt grouped ?td = Inr ranked"
      and h: "top10 = head 10 ranked"
      unfolding s by (auto split: if_splits sum.splits)
    note len = row_totals_length [OF t]
    let ?df' = "setitem df ?td totals"
    have "column ?df' code_col = column df code_col" "column ?df' name_col = column df name_col"
      using wf len ktd by (simp_all add: setitem_column_other)
    then have "length (group_keys (grouper_keys ?df' (Columns [code_col, name_col]))) =
        length (complete_entity_keys df code_col name_col)"
      by (rule group_keys_length)
    moreover have "code_col \<in> set (columns ?df')" "name_col \<in> set (columns ?df')"
      using keys by (auto simp: setitem_columns)
    ultimately have n: "length (rows grouped) = length (complete_entity_keys df code_col name_col)"
      using grouped_by_entity_Inr [OF g] by simp
    from sort_values_desc_Inr [OF k] obtain p where p: "srt (column grouped ?td) = Inr p"
      "ranked = grouped\<lparr>rows := map (\<lambda>i. rows grouped ! i) p\<rparr>" by blast
    from perm p(1) have "mset p = mset [0..<length (column grouped ?td)]"
      by (simp add: argsort_perm_def)
    then have "length p = length (rows grouped)"
      by (simp add: mset_upt_length column_def)
    with n h p(2) show ?thesis by (simp add: head_def)
  qed
  have ok: "\<exists>top10. snd ?R = Inr top10 \<and> (rows df = [] \<longrightarrow> rows top10 = [])"
    if rk: "rankable df code_col name_col ds" and d: "argsort_desc srt"
  proof -
    from compute_combo_chart_ranked [where eo = eo and entity = entity and factor = factor, OF rk eo d]
    obtain top10 where r: "snd ?R = Inr top10" by blast
    from count [OF r] have "rows df = [] \<longrightarrow> rows top10 = []"
      by (auto simp: complete_entity_keys_def distinct_entity_keys_def)
    with r show ?thesis by blast
  qed
  from count ok complete_le_distinct [of df code_col name_col] show ?thesis
    by (metis (no_types, lifting) min.coboundedI2)
qed

theorem compute_combo_chart_row_count_witness:
  "(\<exists>top10. snd (compute_combo_chart stable_argsort
            \<lparr>columns = [''carrier'', ''carrier_name'', ''airport'', ''wd'', ''cd''],
             rows = [[Str ''AA'', Str ''American'', Str ''JFK'', Num 1, Num 2],
                     [Str ''DL'', Str ''Delta'', Str ''JFK'', Num 2, Num 1],
                     [Str ''AA'', Str ''American'', Str ''LAX'', Num 5, Null],
                     [Str ''B6'', Null, Str ''LAX'', Num 50, Null],
                     [Str ''9E'', Str ''Endeavor'', Str ''LAX'', Num 3, Num 0]]\<rparr>
            ''Airline'' ''wd'' [''Airline'' \<mapsto> (''carrier_name'', ''carrier'')] [''wd'', ''cd'']) = Inr top10 \<and>
      length (rows top10) = 3) \<and>
   (\<exists>top10. snd (compute_combo_chart stable_argsort
            \<lparr>columns = [''carrier'', ''carrier_name'', ''airport'', ''wd'', ''cd''], rows = []\<rparr>
            ''Airline'' ''wd'' [''Airline'' \<mapsto> (''carrier_name'', ''carrier'')] [''wd'', ''cd'']) = Inr top10 \<and>
      rows top10 = []) \<and>
   (\<exists>top10. snd (compute_combo_chart stable_argsort
            \<lparr>columns = [''carrier'', ''carrier_name'', ''wd''],
             rows = [[Str ''AA'', Str ''aa'', Num 1],
                     [Str ''AS'', Str ''as'', Num 2],
                     [Str ''B6'', Str ''b6'', Num 3],
                     [Str ''DL'', Str ''dl'', Num 4],
                     [Str ''F9'', Str ''f9'', Num 5],
                     [Str ''G4'', Str ''g4'', Num 6],
                     [Str ''HA'', Str ''ha'', Num 7],
                     [Str ''NK'', Str ''nk'', Num 8],
                     [Str ''OO'', Str ''oo'', Num 9],
                     [Str ''UA'', Str ''ua'', Num 10],
                     [Str ''WN'', Str ''wn'', Num 11]]\<rparr>
            ''Airline'' ''wd'' [''Airline'' \<mapsto> (''carrier_name'', ''carrier'')] [''wd'']) = Inr top10 \<and>
      length (rows top10) = 10)"
proof -
  let ?eo = "[''Airline'' \<mapsto> (''carrier_name'', ''carrier'')]"
  let ?A = "\<lparr>columns = [''carrier'', ''carrier_name'', ''airport'', ''wd'', ''cd''],
             rows = [[Str ''AA'', Str ''American'', Str ''JFK'', Num 1, Num 2],
                     [Str ''DL'', Str ''Delta'', Str ''JFK'', Num 2, Num 1],
                     [Str ''AA'', Str ''American'', Str ''LAX'', Num 5, Null],
                     [Str ''B6'', Null, Str ''LAX'', Num 50, Null],
                     [Str ''9E'', Str ''Endeavor'', Str ''LAX'', Num 3, Num 0]]\<rparr>"
  let ?B = "\<lparr>columns = [''carrier'', ''carrier_name'', ''airport'', ''wd'', ''cd''], rows = []\<rparr>"
  let ?C = "\<lparr>columns = [''carrier'', ''carrier_name'', ''wd''],
             rows = [[Str ''AA'', Str ''aa'', Num 1],
                     [Str ''AS'', Str ''as'', Num 2],
                     [Str ''B6'', Str ''b6'', Num 3],
                     [Str ''DL'', Str ''dl'', Num 4],
                     [Str ''F9'', Str ''f9'', Num 5],
                     [Str ''G4'', Str ''g4'', Num 6],
                     [Str ''HA'', Str ''ha'', Num 7],
                     [Str ''NK'', Str ''nk'', Num 8],
                     [Str ''OO'', Str ''oo'', Num 9],
                     [Str ''UA'', Str ''ua'', Num 10],
                     [Str ''WN'', Str ''wn'', Num 11]]\<rparr>"
  have a: "\<exists>top10. snd (compute_combo_chart stable_argsort ?A ''Airline'' ''wd'' ?eo [''wd'', ''cd''])
        = Inr top10 \<and> length (rows top10) = 3"
    using compute_combo_chart_row_count [where eo = ?eo and entity = "''Airline''"
        and name_col = "''carrier_name''" and code_col = "''carrier''" and df = ?A
        and ds = "[''wd'', ''cd'']" and srt = stable_argsort and factor = "''wd''"]
      stable_argsort_perm stable_argsort_desc
    by (auto simp: rankable_def wf_table_def summable_def complete_entity_keys_def
        distinct_entity_keys_def cell_at_def nth_cell_def numeric_def is_num_def column_def)
  have b: "\<exists>top10. snd (compute_combo_chart stable_argsort ?B ''Airline'' ''wd'' ?eo [''wd'', ''cd''])
        = Inr top10 \<and> rows top10 = []"
    using compute_combo_chart_row_count [where eo = ?eo and entity = "''Airline''"
        and name_col = "''carrier_name''" and code_col = "''carrier''" and df = ?B
        and ds = "[''wd'', ''cd'']" and srt = stable_argsort and factor = "''wd''"]
      stable_argsort_perm stable_argsort_desc
    by (auto simp: rankable_def wf_table_def summable_def column_def)
  have c: "\<exists>top10. snd (compute_combo_chart stable_argsort ?C ''Airline'' ''wd'' ?eo [''wd''])
        = Inr top10 \<and> length (rows top10) = 10"
    using compute_combo_chart_row_count [where eo = ?eo and entity = "''Airline''"
        and name_col = "''carrier_name''" and code_col = "''carrier''" and df = ?C
        and ds = "[''wd'']" and srt = stable_argsort and factor = "''wd''"]
      stable_argsort_perm stable_argsort_desc
    by (auto simp: rankable_def wf_table_def summable_def complete_entity_keys_def
        distinct_entity_keys_def cell_at_def nth_cell_def numeric_def is_num_def column_def)
  from a b c show ?thesis by blast
qed

theorem compute_combo_chart_missing_key_part_counterexample:
  "length (distinct_entity_keys
            \<lparr>columns = [''carrier'', ''carrier_name'', ''airport'', ''wd'', ''cd''],
             rows = [[Str ''AA'', Str ''American'', Str ''JFK'', Num 1, Num 2],
                     [Str ''DL'', Str ''Delta'', Str ''JFK'', Num 2, Num 1],
                     [Str ''AA'', Str ''American'', Str ''LAX'', Num 5, Null],
                     [Str ''B6'', Null, Str ''LAX'', Num 50, Null],
                     [Str ''9E'', Str ''Endeavor'', Str ''LAX'', Num 3, Num 0]]\<rparr>
            ''carrier'' ''carrier_name'') = 4 \<and>
   snd (compute_combo_chart nargsort_desc
            \<lparr>columns = [''carrier'', ''carrier_name'', ''airport'', ''wd'', ''cd''],
             rows = [[Str ''AA'', Str ''American'', Str ''JFK'', Num 1, Num 2],
                     [Str ''DL'', Str ''Delta'', Str ''JFK'', Num 2, Num 1],
                     [Str ''AA'', Str ''American'', Str ''LAX'', Num 5, Null],
                     [Str ''B6'', Null, Str ''LAX'', Num 50, Null],
                     [Str ''9E'', Str ''Endeavor'', Str ''LAX'', Num 3, Num 0]]\<rparr>
            ''Airline'' ''wd'' [''Airline'' \<mapsto> (''carrier_name'', ''carrier'')] [''wd'', ''cd''])
     = Inr \<lparr>columns = [''carrier'', ''carrier_name'', ''airport'', ''wd'', ''cd'', ''total_delay''],
            rows = [[Str ''AA'', Str ''American'', Str ''JFKLAX'', Num 6, Num 2, Num 8],
                    [Str ''9E'', Str ''Endeavor'', Str ''LAX'', Num 3, Num 0, Num 3],
                    [Str ''DL'', Str ''Delta'', Str ''JFK'', Num 2, Num 1, Num 3]]\<rparr>"
  by code_simp

text \<open>
  C4, as amended. On a table that the ranking accepts, the function returns the first 10
  rows of a rearrangement of the grouped rows in which the summed \<^verbatim>\<open>total_delay\<close>
  descends. The order among groups with the same sum is the one the sorting routine of the
  library leaves: \<^verbatim>\<open>sort_values\<close> is called with its default \<^verbatim>\<open>kind='quicksort'\<close>, which
  is not a stable sort, so such groups need not appear in the order of their keys, and which
  of them are among the first 10 is not determined by that order either.
\<close>

theorem compute_combo_chart_ranking:
  assumes rk: "rankable df code_col name_col ds"
    and eo: "eo entity = Some (name_col, code_col)"
    and perm: "argsort_perm srt" and desc: "argsort_desc srt"
  shows "\<exists>grouped ranked.
           grouped_by_entity (fst (compute_combo_chart srt df entity factor eo ds)) code_col name_col
             = Inr grouped \<and>
           columns ranked = columns grouped \<and>
           mset (rows ranked) = mset (rows grouped) \<and>
           sorted_wrt (\<ge>) (map num_of (column ranked ''total_delay'')) \<and>
           snd (compute_combo_chart srt df entity factor eo ds) = Inr (head 10 ranked)"
proof -
  let ?td = "''total_delay''"
  from compute_combo_chart_ranked [where eo = eo and entity = entity and factor = factor, OF rk eo desc]
  obtain grouped p where
    g: "grouped_by_entity (fst (compute_combo_chart srt df entity factor eo ds)) code_col name_col
          = Inr grouped"
    and p: "srt (column grouped ?td) = Inr p"
    and s: "sorted_wrt (\<ge>) (map (key_num (column grouped ?td)) p)"
    and r: "snd (compute_combo_chart srt df entity factor eo ds) =
             Inr (head 10 (grouped\<lparr>rows := map (\<lambda>i. rows grouped ! i) p\<rparr>))"
    by blast
  let ?ranked = "grouped\<lparr>rows := map (\<lambda>i. rows grouped ! i) p\<rparr>"
  from perm p have m: "mset p = mset [0..<length (rows grouped)]"
    by (simp add: argsort_perm_def column_def)
  then have "mset (rows ?ranked) = mset (rows grouped)"
    using mset_map_nth [of p "rows grouped"] by simp
  moreover have "sorted_wrt (\<ge>) (map num_of (column ?ranked ?td))"
    using s by (simp only: column_reorder [OF m])
  moreover have "columns ?ranked = columns grouped" by simp
  ultimately show ?thesis using g r by blast
qed

theorem compute_combo_chart_ranking_witness:
  "(\<exists>grouped ranked.
      grouped_by_entity (fst (compute_combo_chart stable_argsort
            \<lparr>columns = [''carrier'', ''carrier_name'', ''airport'', ''wd'', ''cd''],
             rows = [[Str ''AA'', Str ''American'', Str ''JFK'', Num 1, Num 2],
                     [Str ''DL'', Str ''Delta'', Str ''JFK'', Num 2, Num 1],
                     [Str ''AA'', Str ''American'', Str ''LAX'', Num 5, Null],
                     [Str ''B6'', Null, Str ''LAX'', Num 50, Null],
                     [Str ''9E'', Str ''Endeavor'', Str ''LAX'', Num 3, Num 0]]\<rparr>
            ''Airline'' ''wd'' [''Airline'' \<mapsto> (''carrier_name'', ''carrier'')] [''wd'', ''cd''])) ''carrier'' ''carrier_name''
        = Inr grouped \<and>
      columns ranked = columns grouped \<and>
      mset (rows ranked) = mset (rows grouped) \<and>
      sorted_wrt (\<ge>) (map num_of (column ranked ''total_delay'')) \<and>
      snd (compute_combo_chart stable_argsort
            \<lparr>columns = [''carrier'', ''carrier_name'', ''airport'', ''wd'', ''cd''],
             rows = [[Str ''AA'', Str ''American'', Str ''JFK'', Num 1, Num 2],
                     [Str ''DL'', Str ''Delta'', Str ''JFK'', Num 2, Num 1],
                     [Str ''AA'', Str ''American'', Str ''LAX'', Num 5, Null],
                     [Str ''B6'', Null, Str ''LAX'', Num 50, Null],
                     [Str ''9E'', Str ''Endeavor'', Str ''LAX'', Num 3, Num 0]]\<rparr>
            ''Airline'' ''wd'' [''Airline'' \<mapsto> (''carrier_name'', ''carrier'')] [''wd'', ''cd'']) = Inr (head 10 ranked)) \<and>
   snd (compute_combo_chart stable_argsort
            \<lparr>columns = [''carrier'', ''carrier_name'', ''airport'', ''wd'', ''cd''],
             rows = [[Str ''AA'', Str ''American'', Str ''JFK'', Num 1, Num 2],
                     [Str ''DL'', Str ''Delta'', Str ''JFK'', Num 2, Num 1],
                     [Str ''AA'', Str ''American'', Str ''LAX'', Num 5, Null],
                     [Str ''B6'', Null, Str ''LAX'', Num 50, Null],
                     [Str ''9E'', Str ''Endeavor'', Str ''LAX'', Num 3, Num 0]]\<rparr>
            ''Airline'' ''wd'' [''Airline'' \<mapsto> (''carrier_name'', ''carrier'')] [''wd'', ''cd''])
     = Inr \<lparr>columns = [''carrier'', ''carrier_name'', ''airport'', ''wd'', ''cd'', ''total_delay''],
            rows = [[Str ''AA'', Str ''American'', Str ''JFKLAX'', Num 6, Num 2, Num 8],
                    [Str ''9E'', Str ''Endeavor'', Str ''LAX'', Num 3, Num 0, Num 3],
                    [Str ''DL'', Str ''Delta'', Str ''JFK'', Num 2, Num 1, Num 3]]\<rparr>"
proof -
  let ?eo = "[''Airline'' \<mapsto> (''carrier_name'', ''carrier'')]"
  let ?A = "\<lparr>columns = [''carrier'', ''carrier_name'', ''airport'', ''wd'', ''cd''],
             rows = [[Str ''AA'', Str ''American'', Str ''JFK'', Num 1, Num 2],
                     [Str ''DL'', Str ''Delta'', Str ''JFK'', Num 2, Num 1],
                     [Str ''AA'', Str ''American'', Str ''LAX'', Num 5, Null],
                     [Str ''B6'', Null, Str ''LAX'', Num 50, Null],
                     [Str ''9E'', Str ''Endeavor'', Str ''LAX'', Num 3, Num 0]]\<rparr>"
  have a: "\<exists>grouped ranked.
      grouped_by_entity (fst (compute_combo_chart stable_argsort ?A ''Airline'' ''wd'' ?eo
          [''wd'', ''cd''])) ''carrier'' ''carrier_name'' = Inr grouped \<and>
      columns ranked = columns grouped \<and>
      mset (rows ranked) = mset (rows grouped) \<and>
      sorted_wrt (\<ge>) (map num_of (column ranked ''total_delay'')) \<and>
      snd (compute_combo_chart stable_argsort ?A ''Airline'' ''wd'' ?eo [''wd'', ''cd''])
        = Inr (head 10 ranked)"
    using compute_combo_chart_ranking [where eo = ?eo and entity = "''Airline''"
        and name_col = "''carrier_name''" and code_col = "''carrier''" and df = ?A
        and ds = "[''wd'', ''cd'']" and srt = stable_argsort and factor = "''wd''"]
      stable_argsort_perm stable_argsort_desc
    by (simp add: rankable_def wf_table_def summable_def cell_at_def
        nth_cell_def numeric_def is_num_def column_def)
  have b: "snd (compute_combo_chart stable_argsort ?A ''Airline'' ''wd'' ?eo [''wd'', ''cd''])
     = Inr \<lparr>columns = [''carrier'', ''carrier_name'', ''airport'', ''wd'', ''cd'', ''total_delay''],
            rows = [[Str ''AA'', Str ''American'', Str ''JFKLAX'', Num 6, Num 2, Num 8],
                    [Str ''9E'', Str ''Endeavor'', Str ''LAX'', Num 3, Num 0, Num 3],
                    [Str ''DL'', Str ''Delta'', Str ''JFK'', Num 2, Num 1, Num 3]]\<rparr>"
    by code_simp
  from a b show ?thesis by blast
qed

theorem compute_combo_chart_tied_groups_counterexample:
  "grouped_by_entity (fst (compute_combo_chart nargsort_desc
     \<lparr>columns = [''carrier'', ''carrier_name'', ''wd''],
        rows = [[Str ''a'', Str ''A'', Num 1], [Str ''b'', Str ''B'', Num 1], [Str ''c'', Str ''C'', Num 1],
                [Str ''d'', Str ''D'', Num 1], [Str ''e'', Str ''E'', Num 1], [Str ''f'', Str ''F'', Num 1],
                [Str ''g'', Str ''G'', Num 1], [Str ''h'', Str ''H'', Num 1], [Str ''i'', Str ''I'', Num 1],
                [Str ''j'', Str ''J'', Num 1], [Str ''k'', Str ''K'', Num 1], [Str ''l'', Str ''L'', Num 1],
                [Str ''m'', Str ''M'', Num 1], [Str ''n'', Str ''N'', Num 1], [Str ''o'', Str ''O'', Num 1],
                [Str ''p'', Str ''P'', Num 1], [Str ''q'', Str ''Q'', Num 1], [Str ''r'', Str ''R'', Num 1]]\<rparr>
     ''Airline'' ''wd'' [''Airline'' \<mapsto> (''carrier_name'', ''carrier'')] [''wd''])) ''carrier'' ''carrier_name''
     = Inr \<lparr>columns = [''carrier'', ''carrier_name'', ''wd'', ''total_delay''],
            rows = [[Str ''a'', Str ''A'', Num 1, Num 1], [Str ''b'', Str ''B'', Num 1, Num 1],
                    [Str ''c'', Str ''C'', Num 1, Num 1], [Str ''d'', Str ''D'', Num 1, Num 1],
                    [Str ''e'', Str ''E'', Num 1, Num 1], [Str ''f'', Str ''F'', Num 1, Num 1],
                    [Str ''g'', Str ''G'', Num 1, Num 1], [Str ''h'', Str ''H'', Num 1, Num 1],
                    [Str ''i'', Str ''I'', Num 1, Num 1], [Str ''j'', Str ''J'', Num 1, Num 1],
                    [Str ''k'', Str ''K'', Num 1, Num 1], [Str ''l'', Str ''L'', Num 1, Num 1],
                    [Str ''m'', Str ''M'', Num 1, Num 1], [Str ''n'', Str ''N'', Num 1, Num 1],
                    [Str ''o'', Str ''O'', Num 1, Num 1], [Str ''p'', Str ''P'', Num 1, Num 1],
                    [Str ''q'', Str ''Q'', Num 1, Num 1], [Str ''r'', Str ''R'', Num 1, Num 1]]\<rparr> \<and>
   snd (compute_combo_chart nargsort_desc
     \<lparr>columns = [''carrier'', ''carrier_name'', ''wd''],
        rows = [[Str ''a'', Str ''A'', Num 1], [Str ''b'', Str ''B'', Num 1], [Str ''c'', Str ''C'', Num 1],
                [Str ''d'', Str ''D'', Num 1], [Str ''e'', Str ''E'', Num 1], [Str ''f'', Str ''F'', Num 1],
                [Str ''g'', Str ''G'', Num 1], [Str ''h'', Str ''H'', Num 1], [Str ''i'', Str ''I'', Num 1],
                [Str ''j'', Str ''J'', Num 1], [Str ''k'', Str ''K'', Num 1], [Str ''l'', Str ''L'', Num 1],
                [Str ''m'', Str ''M'', Num 1], [Str ''n'', Str ''N'', Num 1], [Str ''o'', Str ''O'', Num 1],
                [Str ''p'', Str ''P'', Num 1], [Str ''q'', Str ''Q'', Num 1], [Str ''r'', Str ''R'', Num 1]]\<rparr>
     ''Airline'' ''wd'' [''Airline'' \<mapsto> (''carrier_name'', ''carrier'')] [''wd''])
     = Inr \<lparr>columns = [''carrier'', ''carrier_name'', ''wd'', ''total_delay''],
            rows = [[Str ''a'', Str ''A'', Num 1, Num 1], [Str ''b'', Str ''B'', Num 1, Num 1],
                    [Str ''q'', Str ''Q'', Num 1, Num 1], [Str ''p'', Str ''P'', Num 1, Num 1],
                    [Str ''o'', Str ''O'', Num 1, Num 1], [Str ''n'', Str ''N'', Num 1, Num 1],
                    [Str ''m'', Str ''M'', Num 1, Num 1], [Str ''l'', Str ''L'', Num 1, Num 1],
                    [Str ''k'', Str ''K'', Num 1, Num 1], [Str ''j'', Str ''J'', Num 1, Num 1]]\<rparr>"
  by code_simp

section \<open>Properties of prepare_geospatial_data\<close>









































end
